theory Spec2Isabelle
  imports Main "HOL-Library.AList"
begin

section \<open>Hook registration (index.js)\<close>

text \<open>
  \<^verbatim>\<open>list.indexOf(fn)\<close>: the index of the first element strictly equal to \<open>fn\<close>, or \<open>-1\<close>.
  Functions are compared by identity; a hook is any value with equality.
\<close>

fun indexOf_from :: "'a list \<Rightarrow> 'a \<Rightarrow> nat \<Rightarrow> int" where
  "indexOf_from [] x i = - 1"
| "indexOf_from (y # ys) x i = (if y = x then int i else indexOf_from ys x (Suc i))"

definition indexOf :: "'a list \<Rightarrow> 'a \<Rightarrow> int" where
  "indexOf xs x = indexOf_from xs x 0"

text \<open>\<^verbatim>\<open>list.splice(i, 1)\<close> on an index inside the list: the list without position \<open>i\<close>.\<close>

definition splice1 :: "'a list \<Rightarrow> nat \<Rightarrow> 'a list" where
  "splice1 xs i = take i xs @ drop (Suc i) xs"

text \<open>
  The closure returned by \<^verbatim>\<open>registerHook\<close>, as a function of the list it finds when it
  is called: \<^verbatim>\<open>const i = list.indexOf(fn); if (i > -1) list.splice(i, 1)\<close>.
\<close>

definition unregister :: "'a \<Rightarrow> 'a list \<Rightarrow> 'a list" where
  "unregister fn xs = (let i = indexOf xs fn in if i > - 1 then splice1 xs (nat i) else xs)"

text \<open>
  \<^verbatim>\<open>registerHook(list, fn)\<close>: pushes \<open>fn\<close> and returns the closure. The result is the
  updated list together with the closure.
\<close>

definition registerHook :: "'a list \<Rightarrow> 'a \<Rightarrow> 'a list \<times> ('a list \<Rightarrow> 'a list)" where
  "registerHook xs fn = (xs @ [fn], unregister fn)"

section \<open>Data model\<close>

text \<open>
  Objects of the program are modelled by value. Query and params are objects with string
  keys: association lists in insertion order, read with \<open>map_of\<close>. A params value is a
  string or \<^verbatim>\<open>undefined\<close> (a capture group that took no part in the match). Guards and
  component instances are opaque to the router and stand as identifiers.
\<close>

type_synonym Dictionary = "(string \<times> string) list"
type_synonym Params = "(string \<times> string option) list"
type_synonym Guard = nat
type_synonym Instance = nat

text \<open>
  A key of a compiled path (path-to-regexp): its name is a string, or the position of an
  unnamed group; \<^verbatim>\<open>optional\<close> marks a parameter that may be left out.
\<close>

datatype KeyName = KName string | KIndex nat

record Key =
  key_name :: KeyName
  key_optional :: bool

record RouteRegExp =
  re_source :: string
  re_keys :: "Key list"

record PathToRegexpOptions =
  opt_strict :: "bool option"
  opt_sensitive :: "bool option"

text \<open>
  A redirect option is a string, a location object or a function of the would-be route
  (a function stands as the identifier its environment interprets). The value a redirect
  evaluates to is a string, an object, or anything else.
\<close>

record RedirectObj =
  ro_name :: "string option"
  ro_path :: "string option"
  ro_query :: "Dictionary option"
  ro_hash :: "string option"
  ro_params :: "Params option"

datatype RedirectVal = RVString string | RVObject RedirectObj | RVOther

datatype RedirectOption = RedirectString string | RedirectObject RedirectObj | RedirectFunction nat

text \<open>
  The options of a route component after \<^verbatim>\<open>_Vue.extend\<close>: each in-component guard is
  absent, one function, or an array of functions (merged mixins).
\<close>

datatype GuardOption = NoGuard | OneGuard Guard | GuardArray "Guard list"

record Component =
  beforeRouteLeave :: GuardOption
  beforeRouteUpdate :: GuardOption
  beforeRouteEnter :: GuardOption

datatype RouteRecord = RouteRecord
  (rec_path: string)
  (rec_regex: RouteRegExp)
  (rec_components: "(string \<times> Component option) list")
  (rec_instances: "(string \<times> Instance) list")
  (rec_name: "string option")
  (rec_parent: "RouteRecord option")
  (rec_matchAs: "string option")
  (rec_redirect: "RedirectOption option")
  (rec_beforeEnter: "Guard option")
  (rec_meta: Dictionary)

datatype Alias = AliasString string | AliasArray "string list"

datatype RouteConfig = RouteConfig
  (cfg_path: string)
  (cfg_name: "string option")
  (cfg_component: "Component option")
  (cfg_components: "(string \<times> Component option) list option")
  (cfg_redirect: "RedirectOption option")
  (cfg_alias: "Alias option")
  (cfg_children: "RouteConfig list option")
  (cfg_beforeEnter: "Guard option")
  (cfg_meta: "Dictionary option")
  (cfg_caseSensitive: "bool option")
  (cfg_pathToRegexpOptions: "PathToRegexpOptions option")

record Location =
  loc_normalized :: bool
  loc_name :: "string option"
  loc_path :: "string option"
  loc_query :: "Dictionary option"
  loc_hash :: "string option"
  loc_params :: "Params option"

datatype RawLocation = RawString string | RawObject Location

record Route =
  route_name :: "string option"
  route_meta :: Dictionary
  route_path :: string
  route_hash :: string
  route_query :: Dictionary
  route_params :: Params
  route_fullPath :: string
  route_matched :: "RouteRecord list"
  route_redirectedFrom :: "string option"

text \<open>The three structures \<^verbatim>\<open>createRouteMap\<close> returns.\<close>

record RouteMap =
  pathList :: "string list"
  pathMap :: "string \<rightharpoonup> RouteRecord"
  nameMap :: "string \<rightharpoonup> RouteRecord"

text \<open>
  What a call of the matcher can throw: \<^verbatim>\<open>TypeError\<close> (a property of \<^verbatim>\<open>undefined\<close>),
  \<^verbatim>\<open>URIError\<close> (\<^verbatim>\<open>decodeURIComponent\<close> on a malformed escape), \<^verbatim>\<open>RangeError\<close> (the call
  stack is exhausted: \<^verbatim>\<open>match\<close>, \<^verbatim>\<open>redirect\<close>, \<^verbatim>\<open>alias\<close> and \<^verbatim>\<open>_createRoute\<close> call each
  other without bound when redirects form a cycle), and the \<^verbatim>\<open>Error\<close> of a failed
  assertion.
\<close>

datatype Error = TypeError | URIError | RangeError | AssertionFailed

text \<open>
  What the matcher and the table builder import from outside \<^verbatim>\<open>create-matcher.js\<close> and
  \<^verbatim>\<open>create-route-map.js\<close>, taken as parameters: the build mode
  (\<^verbatim>\<open>process.env.NODE_ENV !== 'production'\<close>), \<^verbatim>\<open>assert\<close> of util/warn (the error it throws
  for a condition, \<open>None\<close> when it returns), path-to-regexp's compiler and the regular
  expression match of a path (the capture groups \<^verbatim>\<open>m[1..]\<close>, or \<open>None\<close> for no match),
  \<^verbatim>\<open>decodeURIComponent\<close> (\<open>None\<close> when it throws \<^verbatim>\<open>URIError\<close>), \<^verbatim>\<open>cleanPath\<close> and
  \<^verbatim>\<open>resolvePath\<close> (util/path), \<^verbatim>\<open>fillParams\<close> (util/params), \<^verbatim>\<open>normalizeLocation\<close>
  (util/location), the serialisation of a location to its full path (util/route), and the
  interpretation of redirect functions.
\<close>

record Env =
  dev :: bool
  assert :: "bool \<Rightarrow> Error option"
  Regexp :: "string \<Rightarrow> PathToRegexpOptions \<Rightarrow> RouteRegExp"
  str_match :: "string \<Rightarrow> RouteRegExp \<Rightarrow> string option list option"
  decodeURIComponent :: "string \<Rightarrow> string option"
  cleanPath :: "string \<Rightarrow> string"
  resolvePath :: "string \<Rightarrow> string \<Rightarrow> bool \<Rightarrow> string"
  fillParams :: "string \<Rightarrow> Params option \<Rightarrow> string"
  normalizeLocation :: "RawLocation \<Rightarrow> Route option \<Rightarrow> bool \<Rightarrow> Location"
  getFullPath :: "Location \<Rightarrow> string"
  redirect_fn :: "nat \<Rightarrow> Route \<Rightarrow> RedirectVal"

text \<open>JavaScript truthiness of an optional string: present and not empty.\<close>

definition truthy :: "string option \<Rightarrow> bool" where
  "truthy s = (case s of None \<Rightarrow> False | Some v \<Rightarrow> v \<noteq> [])"

section \<open>Route table builder (create-route-map.js)\<close>

subsection \<open>Moving the wildcard to the end\<close>

text \<open>
  The loop of \<^verbatim>\<open>createRouteMap\<close>:
  \<^verbatim>\<open>for (let i = 0, l = pathList.length; i < l; i++) {
    if (pathList[i] === '*') { pathList.push(pathList.splice(i, 1)[0]); l--; i-- } }\<close>
  After a move the decrement of \<open>i\<close> and the loop's increment cancel, so \<open>i\<close> stays;
  a read outside the list is \<^verbatim>\<open>undefined\<close>, which is not \<^verbatim>\<open>'*'\<close>.
\<close>

function wildcard_loop :: "nat \<Rightarrow> nat \<Rightarrow> string list \<Rightarrow> string list" where
  "wildcard_loop i l paths =
     (if i < l then
        (if i < length paths \<and> paths ! i = ''*''
         then wildcard_loop i (l - 1) (splice1 paths i @ [paths ! i])
         else wildcard_loop (Suc i) l paths)
      else paths)"
  by pat_completeness auto
termination
  by (relation "measure (\<lambda>(i, l, paths). l - i)") auto

declare wildcard_loop.simps [simp del]

definition ensure_wildcard_last :: "string list \<Rightarrow> string list" where
  "ensure_wildcard_last paths = wildcard_loop 0 (length paths) paths"

subsection \<open>Adding route records\<close>

text \<open>
  \<^verbatim>\<open>normalizePath\<close>: without strict mode one trailing slash is removed; a path that starts
  with a slash, or a path without parent, stands as it is; a child path is joined to its
  parent's.
\<close>

definition normalizePath :: "Env \<Rightarrow> string \<Rightarrow> RouteRecord option \<Rightarrow> bool option \<Rightarrow> string" where
  "normalizePath env path parent strict =
     (let path = (if strict \<noteq> Some True \<and> path \<noteq> [] \<and> last path = CHR ''/''
                  then butlast path else path)
      in if path \<noteq> [] \<and> hd path = CHR ''/'' then path
         else (case parent of
                 None \<Rightarrow> path
               | Some p \<Rightarrow> cleanPath env (rec_path p @ ''/'' @ path)))"

text \<open>
  \<^verbatim>\<open>compileRouteRegex\<close>: the compiler of path-to-regexp; the check for duplicate keys only
  warns.
\<close>

definition compileRouteRegex :: "Env \<Rightarrow> string \<Rightarrow> PathToRegexpOptions \<Rightarrow> RouteRegExp" where
  "compileRouteRegex env path pathToRegexpOptions = Regexp env path pathToRegexpOptions"

text \<open>The termination measure of \<^verbatim>\<open>addRouteRecord\<close>: an alias repeats the node once.\<close>

fun cfg_weight :: "RouteConfig \<Rightarrow> nat" where
  "cfg_weight (RouteConfig p n c cs r a ch b m s opts) =
     (let w = Suc (sum_list (map cfg_weight (case ch of None \<Rightarrow> [] | Some xs \<Rightarrow> xs)))
      in case a of None \<Rightarrow> w | Some _ \<Rightarrow> 2 * w)"

text \<open>The configuration synthesised for an alias: \<^verbatim>\<open>{ path: alias, children: route.children }\<close>.\<close>

definition aliasRoute :: "string \<Rightarrow> RouteConfig list option \<Rightarrow> RouteConfig" where
  "aliasRoute alias children =
     RouteConfig alias None None None None None children None None None None"

definition alias_list :: "Alias \<Rightarrow> string list" where
  "alias_list a = (case a of AliasString s \<Rightarrow> [s] | AliasArray xs \<Rightarrow> xs)"

text \<open>
  \<^verbatim>\<open>addRouteRecord(pathList, pathMap, nameMap, route, parent, matchAs)\<close>, the three
  structures passed and returned as one value. In order: the record is built; the children
  are added with the record as parent; the record is registered unless its path is taken;
  the aliases are added as routes of their own; the name is registered unless it is taken.
  The warnings and assertions of development builds leave the structures alone, except
  that an alias equal to the path is skipped there.
\<close>

function addRouteRecord ::
  "Env \<Rightarrow> RouteMap \<Rightarrow> RouteConfig \<Rightarrow> RouteRecord option \<Rightarrow> string option \<Rightarrow> RouteMap" where
  "addRouteRecord env tbl route parent matchAs =
     (let pathToRegexpOptions =
            (case cfg_pathToRegexpOptions route of
               None \<Rightarrow> \<lparr>opt_strict = None, opt_sensitive = None\<rparr>
             | Some opts \<Rightarrow> opts);
          normalizedPath = normalizePath env (cfg_path route) parent (opt_strict pathToRegexpOptions);
          pathToRegexpOptions =
            (case cfg_caseSensitive route of
               None \<Rightarrow> pathToRegexpOptions
             | Some b \<Rightarrow> pathToRegexpOptions\<lparr>opt_sensitive := Some b\<rparr>);
          record = RouteRecord
            normalizedPath
            (compileRouteRegex env normalizedPath pathToRegexpOptions)
            (case cfg_components route of
               None \<Rightarrow> [(''default'', cfg_component route)]
             | Some cs \<Rightarrow> cs)
            []
            (cfg_name route)
            parent
            matchAs
            (cfg_redirect route)
            (cfg_beforeEnter route)
            (case cfg_meta route of None \<Rightarrow> [] | Some m \<Rightarrow> m);
          tbl = (case cfg_children route of
                   None \<Rightarrow> tbl
                 | Some children \<Rightarrow>
                     fold (\<lambda>child t.
                             addRouteRecord env t child (Some record)
                               (if truthy matchAs
                                then Some (cleanPath env (the matchAs @ ''/'' @ cfg_path child))
                                else None))
                          children tbl);
          tbl = (if pathMap tbl (rec_path record) = None
                 then tbl\<lparr>pathList := pathList tbl @ [rec_path record],
                          pathMap := (pathMap tbl)(rec_path record \<mapsto> record)\<rparr>
                 else tbl);
          tbl = (case cfg_alias route of
                   None \<Rightarrow> tbl
                 | Some a \<Rightarrow>
                     fold (\<lambda>alias t.
                             if dev env \<and> alias = cfg_path route then t
                             else addRouteRecord env t (aliasRoute alias (cfg_children route)) parent
                                    (Some (if rec_path record = [] then ''/'' else rec_path record)))
                          (alias_list a) tbl)
      in if truthy (cfg_name route) \<and> nameMap tbl (the (cfg_name route)) = None
         then tbl\<lparr>nameMap := (nameMap tbl)(the (cfg_name route) \<mapsto> record)\<rparr>
         else tbl)"
  by pat_completeness auto

lemma cfg_weight_child:
  "cfg_children route = Some children \<Longrightarrow> child \<in> set children
     \<Longrightarrow> cfg_weight child < cfg_weight route"
proof -
  assume ch: "cfg_children route = Some children" and mem: "child \<in> set children"
  have "cfg_weight child \<le> sum_list (map cfg_weight children)"
    using mem by (simp add: member_le_sum_list)
  with ch show ?thesis
    by (cases route) (auto simp: Let_def split: option.splits)
qed

lemma cfg_weight_aliasRoute:
  "cfg_alias route = Some a \<Longrightarrow> cfg_weight (aliasRoute alias (cfg_children route)) < cfg_weight route"
  by (cases route) (auto simp: aliasRoute_def Let_def split: option.splits)

termination addRouteRecord
  by (relation "measure (\<lambda>(env, tbl, route, parent, matchAs). cfg_weight route)")
     (auto simp: cfg_weight_child cfg_weight_aliasRoute)

declare addRouteRecord.simps [simp del]

text \<open>
  \<^verbatim>\<open>createRouteMap(routes, oldPathList, oldPathMap, oldNameMap)\<close>: the old structures when
  they are given (this is how \<^verbatim>\<open>addRoutes\<close> adds to a table), empty ones otherwise.
\<close>

definition empty_RouteMap :: RouteMap where
  "empty_RouteMap = \<lparr>pathList = [], pathMap = Map.empty, nameMap = Map.empty\<rparr>"

text \<open>\<^verbatim>\<open>routes.forEach(route => { addRouteRecord(pathList, pathMap, nameMap, route) })\<close>\<close>

definition addRouteRecords :: "Env \<Rightarrow> RouteConfig list \<Rightarrow> RouteMap \<Rightarrow> RouteMap" where
  "addRouteRecords env routes tbl = fold (\<lambda>route t. addRouteRecord env t route None None) routes tbl"

definition createRouteMap :: "Env \<Rightarrow> RouteConfig list \<Rightarrow> RouteMap option \<Rightarrow> RouteMap" where
  "createRouteMap env routes old =
     (let tbl = (case old of None \<Rightarrow> empty_RouteMap | Some t \<Rightarrow> t);
          tbl = addRouteRecords env routes tbl
      in tbl\<lparr>pathList := ensure_wildcard_last (pathList tbl)\<rparr>)"

section \<open>Matcher (create-matcher.js)\<close>

text \<open>
  Modelled from the spec: \<^verbatim>\<open>formatMatch\<close> of util/route is not among the sources; the spec
  (3, Route) has \<^verbatim>\<open>matched\<close> as the records from the root ancestor to the deepest matched
  record, found along the \<^verbatim>\<open>parent\<close> references.
\<close>

fun formatMatch :: "RouteRecord \<Rightarrow> RouteRecord list" where
  "formatMatch (RouteRecord p rg cs is n None ma rd be m) = [RouteRecord p rg cs is n None ma rd be m]"
| "formatMatch (RouteRecord p rg cs is n (Some parent) ma rd be m) =
     formatMatch parent @ [RouteRecord p rg cs is n (Some parent) ma rd be m]"

text \<open>
  Modelled from the spec: \<^verbatim>\<open>createRoute\<close> of util/route is not among the sources. The
  spec (3, Route; 4.3 step 5) gives the fields: the name of the location or else of the
  record, the meta of the record, path, hash, query and params of the location with their
  defaults, the full path serialised from the location, \<^verbatim>\<open>matched\<close> (empty without a
  record) and \<^verbatim>\<open>redirectedFrom\<close>, the original location of a redirect, which index.js
  reads as a full path.
\<close>

definition createRoute ::
  "Env \<Rightarrow> RouteRecord option \<Rightarrow> Location \<Rightarrow> Location option \<Rightarrow> Route" where
  "createRoute env record location redirectedFrom =
     \<lparr>route_name = (if truthy (loc_name location) then loc_name location
                     else (case record of None \<Rightarrow> None | Some r \<Rightarrow> rec_name r)),
      route_meta = (case record of None \<Rightarrow> [] | Some r \<Rightarrow> rec_meta r),
      route_path = (if truthy (loc_path location) then the (loc_path location) else ''/''),
      route_hash = (case loc_hash location of None \<Rightarrow> [] | Some h \<Rightarrow> h),
      route_query = (case loc_query location of None \<Rightarrow> [] | Some q \<Rightarrow> q),
      route_params = (case loc_params location of None \<Rightarrow> [] | Some ps \<Rightarrow> ps),
      route_fullPath = getFullPath env location,
      route_matched = (case record of None \<Rightarrow> [] | Some r \<Rightarrow> formatMatch r),
      route_redirectedFrom = map_option (getFullPath env) redirectedFrom\<rparr>"

subsection \<open>matchRoute\<close>

text \<open>The decimal digits of a number: the property name of a numeric key.\<close>

fun show_nat :: "nat \<Rightarrow> string" where
  "show_nat n = (if n < 10 then [char_of (48 + n)]
                 else show_nat (n div 10) @ [char_of (48 + n mod 10)])"

declare show_nat.simps [simp del]

text \<open>\<^verbatim>\<open>key.name || 'pathMatch'\<close>: the empty string and the number 0 are falsy.\<close>

definition param_key :: "KeyName \<Rightarrow> string" where
  "param_key k = (case k of
       KName s \<Rightarrow> (if s = [] then ''pathMatch'' else s)
     | KIndex n \<Rightarrow> (if n = 0 then ''pathMatch'' else show_nat n))"

text \<open>
  The loop of \<^verbatim>\<open>matchRoute\<close> over the groups \<^verbatim>\<open>m[1], m[2], ...\<close>, with the keys from
  \<^verbatim>\<open>regex.keys[0]\<close> on: a string group is decoded first (this can throw), and the value is
  stored when the group has a key.
\<close>

fun matchRoute_loop :: "Env \<Rightarrow> Key list \<Rightarrow> string option list \<Rightarrow> Params \<Rightarrow> Error + Params" where
  "matchRoute_loop env ks [] params = Inr params"
| "matchRoute_loop env ks (g # gs) params =
     (case (case g of None \<Rightarrow> Some None | Some s \<Rightarrow> map_option Some (decodeURIComponent env s)) of
        None \<Rightarrow> Inl URIError
      | Some val \<Rightarrow>
          (case ks of
             [] \<Rightarrow> matchRoute_loop env [] gs params
           | key # ks' \<Rightarrow>
               matchRoute_loop env ks' gs (AList.update (param_key (key_name key)) val params)))"

definition matchRoute ::
  "Env \<Rightarrow> RouteRegExp \<Rightarrow> string \<Rightarrow> Params option \<Rightarrow> Error + (bool \<times> Params option)" where
  "matchRoute env regex path params =
     (case str_match env path regex of
        None \<Rightarrow> Inr (False, params)
      | Some m \<Rightarrow>
          (case params of
             None \<Rightarrow> Inr (True, None)
           | Some ps \<Rightarrow>
               (case matchRoute_loop env (re_keys regex) m ps of
                  Inl e \<Rightarrow> Inl e
                | Inr ps' \<Rightarrow> Inr (True, Some ps'))))"

subsection \<open>match\<close>

text \<open>
  The scan of \<^verbatim>\<open>match\<close> over \<^verbatim>\<open>pathList\<close>: the record of the first path whose regular
  expression matches, with the params \<^verbatim>\<open>matchRoute\<close> filled in. Reading \<^verbatim>\<open>record.regex\<close>
  of a path that \<^verbatim>\<open>pathMap\<close> does not have throws.
\<close>

fun scan_pathList ::
  "Env \<Rightarrow> (string \<rightharpoonup> RouteRecord) \<Rightarrow> string \<Rightarrow> string list \<Rightarrow> Params option
     \<Rightarrow> Error + (RouteRecord \<times> Params option) option" where
  "scan_pathList env pm path [] params = Inr None"
| "scan_pathList env pm path (p # ps) params =
     (case pm p of
        None \<Rightarrow> Inl TypeError
      | Some record \<Rightarrow>
          (case matchRoute env (rec_regex record) path params of
             Inl e \<Rightarrow> Inl e
           | Inr (True, params') \<Rightarrow> Inr (Some (record, params'))
           | Inr (False, params') \<Rightarrow> scan_pathList env pm path ps params'))"

text \<open>
  \<^verbatim>\<open>key in object\<close> for an object made by an object literal: the key is a property of the
  object itself or one that it inherits from \<^verbatim>\<open>Object.prototype\<close>, whose property names
  (ECMAScript) are listed.
\<close>

definition Object_prototype :: "string list" where
  "Object_prototype =
     [''constructor'', ''__defineGetter__'', ''__defineSetter__'', ''hasOwnProperty'',
      ''__lookupGetter__'', ''__lookupSetter__'', ''isPrototypeOf'', ''propertyIsEnumerable'',
      ''toString'', ''valueOf'', ''__proto__'', ''toLocaleString'']"

definition key_in :: "string \<Rightarrow> Params \<Rightarrow> bool" where
  "key_in key object \<longleftrightarrow> key \<in> fst ` set object \<or> key \<in> set Object_prototype"

text \<open>
  The loop of the name branch:
  \<^verbatim>\<open>for (const key in currentRoute.params)
    if (!(key in location.params) && paramNames.indexOf(key) > -1)
      location.params[key] = currentRoute.params[key]\<close>
  The loop runs over the keys of the params of the current route themselves.
\<close>

definition backfill :: "KeyName list \<Rightarrow> Params \<Rightarrow> Params \<Rightarrow> Params" where
  "backfill paramNames current_params location_params =
     fold (\<lambda>(key, v) ps.
             if \<not> key_in key ps \<and> KName key \<in> set paramNames
             then AList.update key v ps else ps)
          current_params location_params"

text \<open>
  The body of \<^verbatim>\<open>match\<close> up to its calls of \<^verbatim>\<open>_createRoute\<close>: the result is the three
  arguments of the call that the body ends with. The warning of development builds for an
  unknown name has no effect on the result.
\<close>

definition match_lookup ::
  "Env \<Rightarrow> RouteMap \<Rightarrow> RawLocation \<Rightarrow> Route option \<Rightarrow> Location option
     \<Rightarrow> Error + (RouteRecord option \<times> Location \<times> Location option)" where
  "match_lookup env tbl raw currentRoute redirectedFrom =
     (let location = normalizeLocation env raw currentRoute False
      in if truthy (loc_name location) then
           (case nameMap tbl (the (loc_name location)) of
              None \<Rightarrow> Inr (None, location, None)
            | Some record \<Rightarrow>
                (let paramNames = map key_name (filter (\<lambda>key. \<not> key_optional key)
                                                     (re_keys (rec_regex record)));
                     location = (case loc_params location of
                                   None \<Rightarrow> location\<lparr>loc_params := Some []\<rparr>
                                 | Some _ \<Rightarrow> location);
                     location = (case currentRoute of
                                   None \<Rightarrow> location
                                 | Some cur \<Rightarrow>
                                     location\<lparr>loc_params :=
                                       Some (backfill paramNames (route_params cur)
                                               (the (loc_params location)))\<rparr>);
                     location = location\<lparr>loc_path :=
                                  Some (fillParams env (rec_path record) (loc_params location))\<rparr>
                 in Inr (Some record, location, redirectedFrom)))
         else if truthy (loc_path location) then
           (let location = location\<lparr>loc_params := Some []\<rparr>
            in case scan_pathList env (pathMap tbl) (the (loc_path location)) (pathList tbl)
                      (loc_params location) of
                 Inl e \<Rightarrow> Inl e
               | Inr (Some (record, params)) \<Rightarrow>
                   Inr (Some record, location\<lparr>loc_params := params\<rparr>, redirectedFrom)
               | Inr None \<Rightarrow> Inr (None, location, None))
         else Inr (None, location, None))"

text \<open>\<^verbatim>\<open>resolveRecordPath\<close>: a relative redirect is resolved against the parent's path.\<close>

definition resolveRecordPath :: "Env \<Rightarrow> string \<Rightarrow> RouteRecord \<Rightarrow> string" where
  "resolveRecordPath env path record =
     resolvePath env path (case rec_parent record of None \<Rightarrow> ''/'' | Some p \<Rightarrow> rec_path p) True"

text \<open>
  The value of the redirect option in \<^verbatim>\<open>redirect\<close>: a function is called with the route of
  the record, and a string becomes \<^verbatim>\<open>{ path: redirect }\<close>. The result is the object, or
  \<open>None\<close> for a value that is no object.
\<close>

definition path_only :: "string \<Rightarrow> RedirectObj" where
  "path_only s = \<lparr>ro_name = None, ro_path = Some s, ro_query = None, ro_hash = None, ro_params = None\<rparr>"

definition redirect_value :: "Env \<Rightarrow> RouteRecord \<Rightarrow> Location \<Rightarrow> RedirectObj option" where
  "redirect_value env record location =
     (case rec_redirect record of
        None \<Rightarrow> None
      | Some (RedirectString s) \<Rightarrow> Some (path_only s)
      | Some (RedirectObject re) \<Rightarrow> Some re
      | Some (RedirectFunction f) \<Rightarrow>
          (case redirect_fn env f (createRoute env (Some record) location None) of
             RVString s \<Rightarrow> Some (path_only s)
           | RVObject re \<Rightarrow> Some re
           | RVOther \<Rightarrow> None))"

text \<open>
  The location \<^verbatim>\<open>redirect\<close> hands to \<^verbatim>\<open>match\<close>: by name, or by the resolved and filled
  path; \<open>None\<close> when the object has neither. Query, hash and params come from the redirect
  object when it has them, from the location otherwise.
\<close>

definition redirect_target :: "Env \<Rightarrow> RouteRecord \<Rightarrow> Location \<Rightarrow> RedirectObj \<Rightarrow> Location option" where
  "redirect_target env record location re =
     (let query = (case ro_query re of None \<Rightarrow> loc_query location | Some q \<Rightarrow> Some q);
          hash = (case ro_hash re of None \<Rightarrow> loc_hash location | Some h \<Rightarrow> Some h);
          params = (case ro_params re of None \<Rightarrow> loc_params location | Some ps \<Rightarrow> Some ps)
      in if truthy (ro_name re) then
           Some \<lparr>loc_normalized = True, loc_name = ro_name re, loc_path = None,
                 loc_query = query, loc_hash = hash, loc_params = params\<rparr>
         else if truthy (ro_path re) then
           (let rawPath = resolveRecordPath env (the (ro_path re)) record;
                resolvedPath = fillParams env rawPath params
            in Some \<lparr>loc_normalized = True, loc_name = None, loc_path = Some resolvedPath,
                     loc_query = query, loc_hash = hash, loc_params = None\<rparr>)
         else None)"

text \<open>JavaScript truthiness of the redirect option of a record.\<close>

definition redirect_truthy :: "RedirectOption option \<Rightarrow> bool" where
  "redirect_truthy r = (case r of
       None \<Rightarrow> False
     | Some (RedirectString s) \<Rightarrow> s \<noteq> []
     | Some _ \<Rightarrow> True)"

text \<open>
  \<^verbatim>\<open>match\<close>, \<^verbatim>\<open>redirect\<close>, \<^verbatim>\<open>alias\<close> and \<^verbatim>\<open>_createRoute\<close> call each other. Each body
  is written once, over the \<^verbatim>\<open>_createRoute\<close> it calls (the argument \<open>cr\<close>), and the knot
  is tied by recursion on the depth of calls left on the stack: \<^verbatim>\<open>_createRoute\<close> needs one
  level to enter \<^verbatim>\<open>redirect\<close> or \<^verbatim>\<open>alias\<close>, and with none left the call throws
  \<^verbatim>\<open>RangeError\<close>. Where \<^verbatim>\<open>redirect\<close> returns \<^verbatim>\<open>_createRoute(null, location)\<close> the model has
  the route that call returns, \<^verbatim>\<open>createRoute(null, location)\<close>.
\<close>

type_synonym createRoute_fn =
  "RouteRecord option \<Rightarrow> Location \<Rightarrow> Location option \<Rightarrow> Error + Route"

definition match_body ::
  "createRoute_fn \<Rightarrow> Env \<Rightarrow> RouteMap \<Rightarrow> RawLocation \<Rightarrow> Route option \<Rightarrow> Location option
     \<Rightarrow> Error + Route" where
  "match_body cr env tbl raw currentRoute redirectedFrom =
     (case match_lookup env tbl raw currentRoute redirectedFrom of
        Inl e \<Rightarrow> Inl e
      | Inr (record, location, redirectedFrom') \<Rightarrow> cr record location redirectedFrom')"

text \<open>
  The assertion of \<^verbatim>\<open>redirect\<close> in its branch for a redirect by name, which development
  builds run: \<^verbatim>\<open>assert(targetRecord, ...)\<close> with \<^verbatim>\<open>targetRecord = nameMap[name]\<close>. The result
  is the error thrown, or \<open>None\<close>.
\<close>

definition redirect_assert :: "Env \<Rightarrow> RouteMap \<Rightarrow> RedirectObj \<Rightarrow> Error option" where
  "redirect_assert env tbl re =
     (if truthy (ro_name re) \<and> dev env
      then assert env (nameMap tbl (the (ro_name re)) \<noteq> None)
      else None)"

definition redirect_body ::
  "createRoute_fn \<Rightarrow> Env \<Rightarrow> RouteMap \<Rightarrow> RouteRecord \<Rightarrow> Location \<Rightarrow> Error + Route" where
  "redirect_body cr env tbl record location =
     (case redirect_value env record location of
        None \<Rightarrow> Inr (createRoute env None location None)
      | Some re \<Rightarrow>
          (case redirect_target env record location re of
             None \<Rightarrow> Inr (createRoute env None location None)
           | Some target \<Rightarrow>
               (case redirect_assert env tbl re of
                  Some e \<Rightarrow> Inl e
                | None \<Rightarrow> match_body cr env tbl (RawObject target) None (Some location))))"

definition alias_body ::
  "createRoute_fn \<Rightarrow> Env \<Rightarrow> RouteMap \<Rightarrow> RouteRecord \<Rightarrow> Location \<Rightarrow> string \<Rightarrow> Error + Route" where
  "alias_body cr env tbl record location matchAs =
     (let aliasedPath = fillParams env matchAs (loc_params location)
      in case match_body cr env tbl
                (RawObject \<lparr>loc_normalized = True, loc_name = None, loc_path = Some aliasedPath,
                            loc_query = None, loc_hash = None, loc_params = None\<rparr>)
                None None of
           Inl e \<Rightarrow> Inl e
         | Inr aliasedMatch \<Rightarrow>
             (let matched = route_matched aliasedMatch;
                  aliasedRecord = (if matched = [] then None else Some (last matched));
                  location = location\<lparr>loc_params := Some (route_params aliasedMatch)\<rparr>
              in cr aliasedRecord location None))"

primrec createRoute_internal ::
  "nat \<Rightarrow> Env \<Rightarrow> RouteMap \<Rightarrow> RouteRecord option \<Rightarrow> Location \<Rightarrow> Location option \<Rightarrow> Error + Route"
where
  "createRoute_internal 0 env tbl record location redirectedFrom =
     (case record of
        None \<Rightarrow> Inr (createRoute env None location redirectedFrom)
      | Some r \<Rightarrow>
          if redirect_truthy (rec_redirect r) \<or> truthy (rec_matchAs r) then Inl RangeError
          else Inr (createRoute env record location redirectedFrom))"
| "createRoute_internal (Suc d) env tbl record location redirectedFrom =
     (case record of
        None \<Rightarrow> Inr (createRoute env None location redirectedFrom)
      | Some r \<Rightarrow>
          if redirect_truthy (rec_redirect r) then
            redirect_body (createRoute_internal d env tbl) env tbl r
              (case redirectedFrom of None \<Rightarrow> location | Some rf \<Rightarrow> rf)
          else if truthy (rec_matchAs r) then
            alias_body (createRoute_internal d env tbl) env tbl r location (the (rec_matchAs r))
          else Inr (createRoute env record location redirectedFrom))"

definition match ::
  "nat \<Rightarrow> Env \<Rightarrow> RouteMap \<Rightarrow> RawLocation \<Rightarrow> Route option \<Rightarrow> Location option \<Rightarrow> Error + Route" where
  "match d env tbl raw currentRoute redirectedFrom =
     match_body (createRoute_internal d env tbl) env tbl raw currentRoute redirectedFrom"

definition redirect :: "nat \<Rightarrow> Env \<Rightarrow> RouteMap \<Rightarrow> RouteRecord \<Rightarrow> Location \<Rightarrow> Error + Route" where
  "redirect d env tbl record location =
     redirect_body (createRoute_internal d env tbl) env tbl record location"

definition alias_route ::
  "nat \<Rightarrow> Env \<Rightarrow> RouteMap \<Rightarrow> RouteRecord \<Rightarrow> Location \<Rightarrow> string \<Rightarrow> Error + Route" where
  "alias_route d env tbl record location matchAs =
     alias_body (createRoute_internal d env tbl) env tbl record location matchAs"

text \<open>\<^verbatim>\<open>createMatcher(routes, router)\<close> builds the table; \<^verbatim>\<open>addRoutes\<close> adds to it.\<close>

definition createMatcher :: "Env \<Rightarrow> RouteConfig list \<Rightarrow> RouteMap" where
  "createMatcher env routes = createRouteMap env routes None"

definition addRoutes :: "Env \<Rightarrow> RouteMap \<Rightarrow> RouteConfig list \<Rightarrow> RouteMap" where
  "addRoutes env tbl routes = createRouteMap env routes (Some tbl)"



section \<open>Transition engine (history/base.js)\<close>

subsection \<open>Values, hooks and effects\<close>

text \<open>
  Modelled from the spec: \<^verbatim>\<open>NavigationDuplicated\<close> of history/errors is not among the
  sources; the spec (7) has it as the condition of a navigation to the current route. Any
  other error object is an \<open>Error\<close> with its message.
\<close>

datatype Err = NavigationDuplicated Route | Error string

text \<open>
  What a guard passes to \<^verbatim>\<open>next\<close> or throws, and what \<^verbatim>\<open>abort\<close> receives: nothing,
  \<^verbatim>\<open>false\<close>, an error object, a string, a location object with its \<^verbatim>\<open>replace\<close> flag, a
  function, or any other value with its truthiness.
\<close>

datatype JSVal =
    Undefined
  | JFalse
  | JErr Err
  | JString string
  | JObject Location bool
  | JFunction nat
  | JOther bool

text \<open>
  Modelled from the spec: \<^verbatim>\<open>isError\<close> and \<^verbatim>\<open>isExtendedError\<close> of util/warn are not among
  the sources. An error value is an error object (spec 4.4, step 5), and the second test,
  applied to \<^verbatim>\<open>NavigationDuplicated\<close>, recognises the duplicate condition (spec 7).
\<close>

definition isError :: "JSVal \<Rightarrow> bool" where
  "isError v = (case v of JErr e \<Rightarrow> True | _ \<Rightarrow> False)"

definition isNavigationDuplicated :: "JSVal \<Rightarrow> bool" where
  "isNavigationDuplicated v = (case v of JErr (NavigationDuplicated r) \<Rightarrow> True | _ \<Rightarrow> False)"

definition js_truthy :: "JSVal \<Rightarrow> bool" where
  "js_truthy v = (case v of
       Undefined \<Rightarrow> False | JFalse \<Rightarrow> False | JErr e \<Rightarrow> True | JString s \<Rightarrow> s \<noteq> []
     | JObject l r \<Rightarrow> True | JFunction f \<Rightarrow> True | JOther b \<Rightarrow> b)"

text \<open>
  Modelled from the spec: \<^verbatim>\<open>isSameRoute\<close> and \<^verbatim>\<open>START\<close> of util/route are not among the
  sources. Two routes are route-equal when path, query, hash and params are the same
  (spec 4.4, step 2); \<^verbatim>\<open>START\<close> is the route that stands for nowhere, at the root path.
\<close>

definition isSameRoute :: "Route \<Rightarrow> Route \<Rightarrow> bool" where
  "isSameRoute a b \<longleftrightarrow>
     route_path a = route_path b \<and> route_query a = route_query b
     \<and> route_hash a = route_hash b \<and> route_params a = route_params b"

definition START :: Route where
  "START = \<lparr>route_name = None, route_meta = [], route_path = ''/'', route_hash = [],
     route_query = [], route_params = [], route_fullPath = ''/'', route_matched = [],
     route_redirectedFrom = None\<rparr>"

text \<open>
  The functions that stand in a guard queue: an in-component guard bound to its instance
  (\<^verbatim>\<open>boundRouteGuard\<close>), a global or route-scoped guard as registered, the wrapper of an
  in-component enter guard (\<^verbatim>\<open>routeEnterGuard\<close>, with its record and view name), and the
  step that resolves the async components of the activated records.
\<close>

datatype Hook =
    BoundGuard Guard Instance
  | PlainGuard Guard
  | RouteEnterGuard Guard RouteRecord string
  | ResolveAsyncComponents "RouteRecord list"

text \<open>
  The completion callback handed to \<^verbatim>\<open>transitionTo\<close>: none, a callback of the caller, or
  the closure of \<^verbatim>\<open>push\<close> or \<^verbatim>\<open>replace\<close> of a history subclass, which writes the URL and
  then calls the callback of its caller.
\<close>

datatype OnComplete =
    NoCallback
  | UserCallback nat
  | PushCallback "nat option"
  | ReplaceCallback "nat option"

text \<open>
  What the engine does to the outside, in order: requests to the URL collaborator, calls
  of callbacks and observers, calls of guards, and the commit. A navigation is named by
  the identity of its route object.
\<close>

datatype Effect =
    EnsureURL bool
  | ErrorCb nat JSVal
  | Warn JSVal
  | AbortCb nat JSVal
  | UserAbort nat JSVal
  | ReadyErrorCb nat JSVal
  | Invoke nat bool nat Hook
  | UpdateRoute nat
  | Listener nat nat
  | AfterHook Guard nat
  | UserComplete nat nat
  | PushState nat
  | ReplaceState nat
  | ReadyCb nat nat
  | NextTick nat "nat list"
  | MatchThrew Error
  | ReadyNow nat

subsection \<open>State\<close>

text \<open>
  The fields of the router that the engine reads: the three hook lists, whether an app is
  attached, and \<^verbatim>\<open>match\<close>, which returns a route or throws.
\<close>

record Router =
  beforeHooks :: "Guard option list"
  resolveHooks :: "Guard option list"
  afterHooks :: "Guard option list"
  app :: bool
  router_match :: "RawLocation \<Rightarrow> Route \<Rightarrow> Error + Route"

text \<open>\<^verbatim>\<open>VueRouter.match\<close> of index.js, as \<^verbatim>\<open>transitionTo\<close> calls it, on a given stack depth.\<close>

definition VueRouter_match :: "nat \<Rightarrow> Env \<Rightarrow> RouteMap \<Rightarrow> RawLocation \<Rightarrow> Route \<Rightarrow> Error + Route" where
  "VueRouter_match d env tbl raw cur = match d env tbl raw (Some cur) None"

text \<open>
  The variables of one call of \<^verbatim>\<open>confirmTransition\<close> that waits in a hook: the target
  route, the activated records, the queue that runs and the index in it, whether it is the
  second queue, the callbacks collected from enter guards, and the two callbacks of the
  call.
\<close>

record Nav =
  nav_route :: Route
  nav_activated :: "RouteRecord list"
  nav_queue :: "Hook option list"
  nav_index :: nat
  nav_second :: bool
  nav_postEnterCbs :: "nat list"
  nav_onComplete :: OnComplete
  nav_onAbort :: "nat option"

text \<open>
  The fields of \<^verbatim>\<open>History\<close>. Route objects are compared by reference (\<^verbatim>\<open>this.pending !==
  route\<close>), and every call of \<^verbatim>\<open>match\<close> builds a new object: a route object is a pair of its
  identity and its value, \<^verbatim>\<open>pending\<close> holds an identity, and \<open>fresh\<close> is the next unused one.
  \<open>waiting\<close> holds the calls of \<^verbatim>\<open>confirmTransition\<close> that wait in a hook, by the identity
  of their route, and \<open>effects\<close> is what was done so far.
\<close>

record History =
  router :: Router
  current :: "nat \<times> Route"
  pending :: "nat option"
  cb :: "nat option"
  ready :: bool
  readyCbs :: "nat list"
  readyErrorCbs :: "nat list"
  errorCbs :: "nat list"
  waiting :: "nat \<rightharpoonup> Nav"
  fresh :: nat
  effects :: "Effect list"

text \<open>The constructor: the current route is \<^verbatim>\<open>START\<close>, with identity 0.\<close>

definition History_init :: "Router \<Rightarrow> History" where
  "History_init r =
     \<lparr>router = r, current = (0, START), pending = None, cb = None, ready = False,
      readyCbs = [], readyErrorCbs = [], errorCbs = [], waiting = Map.empty, fresh = 1,
      effects = []\<rparr>"

definition emit :: "Effect list \<Rightarrow> History \<Rightarrow> History" where
  "emit es h = h\<lparr>effects := effects h @ es\<rparr>"

subsection \<open>The guard queues\<close>

text \<open>
  \<^verbatim>\<open>resolveQueue\<close>: the records before the first position where the two chains differ are
  updated, the rest of the new chain is activated, the rest of the current chain is
  deactivated. Records are compared by reference; in the model two records are the same
  when all their fields are.
\<close>

fun first_difference :: "RouteRecord list \<Rightarrow> RouteRecord list \<Rightarrow> nat" where
  "first_difference (x # xs) (y # ys) = (if x = y then Suc (first_difference xs ys) else 0)"
| "first_difference xs ys = 0"

definition resolveQueue ::
  "RouteRecord list \<Rightarrow> RouteRecord list
     \<Rightarrow> RouteRecord list \<times> RouteRecord list \<times> RouteRecord list" where
  "resolveQueue cur nxt =
     (let i = first_difference cur nxt
      in (take i nxt, drop i nxt, drop i cur))"

datatype GuardName = BeforeRouteLeave | BeforeRouteUpdate | BeforeRouteEnter

text \<open>\<^verbatim>\<open>extractGuard\<close>: the option of the extended component; no component, no guard.\<close>

definition extractGuard :: "Component option \<Rightarrow> GuardName \<Rightarrow> GuardOption" where
  "extractGuard def name =
     (case def of
        None \<Rightarrow> NoGuard
      | Some c \<Rightarrow>
          (case name of
             BeforeRouteLeave \<Rightarrow> beforeRouteLeave c
           | BeforeRouteUpdate \<Rightarrow> beforeRouteUpdate c
           | BeforeRouteEnter \<Rightarrow> beforeRouteEnter c))"

text \<open>
  What the callback of \<^verbatim>\<open>extractGuards\<close> returns for one component: \<^verbatim>\<open>undefined\<close>, one
  bound guard (or \<^verbatim>\<open>undefined\<close>, when binding gives none), or an array of them.
\<close>

datatype Entry = EUndefined | ESingle "Hook option" | EArray "Hook option list"

text \<open>
  Modelled from the spec: \<^verbatim>\<open>flatMapComponents\<close> and \<^verbatim>\<open>flatten\<close> of util/resolve-components
  are not among the sources. The spec (4.4, step 4) collects the guards of the records in
  document order, record by record and view by view; \<^verbatim>\<open>flatten\<close> joins the arrays among the
  entries into one list, and an entry that is \<^verbatim>\<open>undefined\<close> stays as an element.
\<close>

definition flatMapComponents ::
  "RouteRecord list \<Rightarrow> (Component option \<Rightarrow> Instance option \<Rightarrow> RouteRecord \<Rightarrow> string \<Rightarrow> Entry)
     \<Rightarrow> Entry list" where
  "flatMapComponents matched fn =
     concat (map (\<lambda>m. map (\<lambda>(key, def). fn def (map_of (rec_instances m) key) m key)
                         (rec_components m)) matched)"

definition flatten :: "Entry list \<Rightarrow> Hook option list" where
  "flatten arr = concat (map (\<lambda>e. case e of EUndefined \<Rightarrow> [None] | ESingle h \<Rightarrow> [h] | EArray hs \<Rightarrow> hs) arr)"

definition extractGuards ::
  "RouteRecord list \<Rightarrow> GuardName
     \<Rightarrow> (Guard \<Rightarrow> Instance option \<Rightarrow> RouteRecord \<Rightarrow> string \<Rightarrow> Hook option) \<Rightarrow> bool
     \<Rightarrow> Hook option list" where
  "extractGuards records name bind reverse =
     (let guards = flatMapComponents records (\<lambda>def instance m key.
            case extractGuard def name of
              NoGuard \<Rightarrow> EUndefined
            | OneGuard guard \<Rightarrow> ESingle (bind guard instance m key)
            | GuardArray gs \<Rightarrow> EArray (map (\<lambda>guard. bind guard instance m key) gs))
      in flatten (if reverse then rev guards else guards))"

text \<open>\<^verbatim>\<open>bindGuard\<close>: a guard is bound when the view has an instance, and dropped otherwise.\<close>

definition bindGuard :: "Guard \<Rightarrow> Instance option \<Rightarrow> RouteRecord \<Rightarrow> string \<Rightarrow> Hook option" where
  "bindGuard guard instance m key =
     (case instance of None \<Rightarrow> None | Some i \<Rightarrow> Some (BoundGuard guard i))"

definition extractLeaveGuards :: "RouteRecord list \<Rightarrow> Hook option list" where
  "extractLeaveGuards deactivated = extractGuards deactivated BeforeRouteLeave bindGuard True"

definition extractUpdateHooks :: "RouteRecord list \<Rightarrow> Hook option list" where
  "extractUpdateHooks updated = extractGuards updated BeforeRouteUpdate bindGuard False"

definition extractEnterGuards :: "RouteRecord list \<Rightarrow> Hook option list" where
  "extractEnterGuards activated =
     extractGuards activated BeforeRouteEnter
       (\<lambda>guard instance m key. Some (RouteEnterGuard guard m key)) False"

text \<open>
  The first queue of \<^verbatim>\<open>confirmTransition\<close>, \<^verbatim>\<open>[].concat(...)\<close> of its five parts.
\<close>

definition first_queue :: "Router \<Rightarrow> Route \<Rightarrow> Route \<Rightarrow> Hook option list" where
  "first_queue r cur route =
     (case resolveQueue (route_matched cur) (route_matched route) of
        (updated, activated, deactivated) \<Rightarrow>
          extractLeaveGuards deactivated
          @ map (map_option PlainGuard) (beforeHooks r)
          @ extractUpdateHooks updated
          @ map (\<lambda>m. map_option PlainGuard (rec_beforeEnter m)) activated
          @ [Some (ResolveAsyncComponents activated)])"

subsection \<open>Callbacks\<close>

text \<open>
  The abort callback that \<^verbatim>\<open>transitionTo\<close> hands to \<^verbatim>\<open>confirmTransition\<close>: the callback of
  the caller, and the ready-error callbacks once when the value is truthy.
\<close>

definition transitionTo_onAbort :: "History \<Rightarrow> nat \<Rightarrow> nat option \<Rightarrow> JSVal \<Rightarrow> History" where
  "transitionTo_onAbort h n onAbort err =
     (let h = emit [AbortCb n err] h;
          h = (case onAbort of None \<Rightarrow> h | Some c \<Rightarrow> emit [UserAbort c err] h)
      in if js_truthy err \<and> \<not> ready h
         then emit (map (\<lambda>c. ReadyErrorCb c err) (readyErrorCbs h)) (h\<lparr>ready := True\<rparr>)
         else h)"

text \<open>
  \<^verbatim>\<open>abort\<close> of \<^verbatim>\<open>confirmTransition\<close>: an error that is not the duplicate condition goes to
  the error callbacks, or to a warning when there are none; then the abort callback runs.
\<close>

definition abort :: "History \<Rightarrow> nat \<Rightarrow> nat option \<Rightarrow> JSVal \<Rightarrow> History" where
  "abort h n onAbort err =
     (let h = (if \<not> isNavigationDuplicated err \<and> isError err
               then (if errorCbs h \<noteq> []
                     then emit (map (\<lambda>c. ErrorCb c err) (errorCbs h)) h
                     else emit [Warn err] h)
               else h)
      in transitionTo_onAbort h n onAbort err)"

text \<open>\<^verbatim>\<open>updateRoute\<close>: the commit. The listener and the after hooks are told.\<close>

definition updateRoute :: "History \<Rightarrow> nat \<Rightarrow> Route \<Rightarrow> History" where
  "updateRoute h n route =
     (let h = emit [UpdateRoute n] (h\<lparr>current := (n, route)\<rparr>);
          h = (case cb h of None \<Rightarrow> h | Some c \<Rightarrow> emit [Listener c n] h)
      in emit (concat (map (\<lambda>hook. case hook of None \<Rightarrow> [] | Some g \<Rightarrow> [AfterHook g n])
                           (afterHooks (router h)))) h)"

definition call_onComplete :: "OnComplete \<Rightarrow> nat \<Rightarrow> Effect list" where
  "call_onComplete oc n =
     (case oc of
        NoCallback \<Rightarrow> []
      | UserCallback c \<Rightarrow> [UserComplete c n]
      | PushCallback u \<Rightarrow> PushState n # (case u of None \<Rightarrow> [] | Some c \<Rightarrow> [UserComplete c n])
      | ReplaceCallback u \<Rightarrow> ReplaceState n # (case u of None \<Rightarrow> [] | Some c \<Rightarrow> [UserComplete c n]))"

text \<open>
  The completion callback that \<^verbatim>\<open>transitionTo\<close> hands to \<^verbatim>\<open>confirmTransition\<close>: commit,
  callback of the caller, \<^verbatim>\<open>ensureURL()\<close>, and the ready callbacks once.
\<close>

definition transitionTo_onComplete :: "History \<Rightarrow> nat \<Rightarrow> Route \<Rightarrow> OnComplete \<Rightarrow> History" where
  "transitionTo_onComplete h n route oc =
     (let h = updateRoute h n route;
          h = emit (call_onComplete oc n) h;
          h = emit [EnsureURL False] h
      in if \<not> ready h
         then emit (map (\<lambda>c. ReadyCb c n) (readyCbs h)) (h\<lparr>ready := True\<rparr>)
         else h)"

subsection \<open>Running the queues\<close>

text \<open>
  \<^verbatim>\<open>iterator\<close>, up to the call of the hook: a navigation that is no longer the pending one
  aborts; otherwise the hook is called and the navigation waits for its \<^verbatim>\<open>next\<close>.
\<close>

definition iterator :: "History \<Rightarrow> nat \<Rightarrow> Nav \<Rightarrow> Hook \<Rightarrow> nat \<Rightarrow> History" where
  "iterator h n nav hook i =
     (if pending h \<noteq> Some n then abort h n (nav_onAbort nav) Undefined
      else emit [Invoke n (nav_second nav) i hook]
             (h\<lparr>waiting := (waiting h)(n \<mapsto> nav\<lparr>nav_index := i\<rparr>)\<rparr>))"

text \<open>
  Modelled from the spec: \<^verbatim>\<open>runQueue\<close> of util/async is not among the sources. The spec
  (4.4, step 5; 5) has the queue as a sequential pipeline with one step in flight: the
  step at the index is handed to the iterator, whose \<^verbatim>\<open>next\<close> moves to the following index;
  an entry that holds no guard is passed over; after the last entry the callback of the
  queue runs. \<open>q\<close> is the rest of the queue from index \<open>i\<close> on.

  The callback of the second queue: a navigation that is no longer pending aborts;
  otherwise \<^verbatim>\<open>pending\<close> is cleared, the completion callback runs, and with an app attached
  the callbacks of the enter guards are scheduled for the next tick.
\<close>

fun run_second :: "History \<Rightarrow> nat \<Rightarrow> Nav \<Rightarrow> Hook option list \<Rightarrow> nat \<Rightarrow> History" where
  "run_second h n nav [] i =
     (if pending h \<noteq> Some n then abort h n (nav_onAbort nav) Undefined
      else (let h = transitionTo_onComplete (h\<lparr>pending := None\<rparr>) n (nav_route nav)
                      (nav_onComplete nav)
            in if app (router h) then emit [NextTick n (nav_postEnterCbs nav)] h else h))"
| "run_second h n nav (None # q) i = run_second h n nav q (Suc i)"
| "run_second h n nav (Some hook # q) i = iterator h n nav hook i"

text \<open>
  The callback of the first queue: the enter guards of the activated records and the
  resolve hooks form the second queue, which runs with the same iterator.
\<close>

definition second_queue :: "Router \<Rightarrow> RouteRecord list \<Rightarrow> Hook option list" where
  "second_queue r activated =
     extractEnterGuards activated @ map (map_option PlainGuard) (resolveHooks r)"

fun run_first :: "History \<Rightarrow> nat \<Rightarrow> Nav \<Rightarrow> Hook option list \<Rightarrow> nat \<Rightarrow> History" where
  "run_first h n nav [] i =
     (let queue = second_queue (router h) (nav_activated nav)
      in run_second h n (nav\<lparr>nav_queue := queue, nav_second := True, nav_postEnterCbs := []\<rparr>)
           queue 0)"
| "run_first h n nav (None # q) i = run_first h n nav q (Suc i)"
| "run_first h n nav (Some hook # q) i = iterator h n nav hook i"

subsection \<open>confirmTransition and transitionTo\<close>

text \<open>
  \<^verbatim>\<open>confirmTransition\<close> for the route object \<open>n\<close>: a route that is the same as the current
  one, with a matched chain of the same length, asks for \<^verbatim>\<open>ensureURL()\<close> and aborts with
  the duplicate condition; otherwise the first queue is built, the route becomes the
  pending one, and the queue runs.
\<close>

definition confirmTransition :: "History \<Rightarrow> nat \<Rightarrow> Route \<Rightarrow> OnComplete \<Rightarrow> nat option \<Rightarrow> History" where
  "confirmTransition h n route oc onAbort =
     (if isSameRoute route (snd (current h))
         \<and> length (route_matched route) = length (route_matched (snd (current h)))
      then abort (emit [EnsureURL False] h) n onAbort (JErr (NavigationDuplicated route))
      else (let queue = first_queue (router h) (snd (current h)) route;
                activated = fst (snd (resolveQueue (route_matched (snd (current h)))
                                        (route_matched route)));
                nav = \<lparr>nav_route = route, nav_activated = activated, nav_queue = queue,
                       nav_index = 0, nav_second = False, nav_postEnterCbs = [],
                       nav_onComplete = oc, nav_onAbort = onAbort\<rparr>
            in run_first (h\<lparr>pending := Some n\<rparr>) n nav queue 0))"

text \<open>
  \<^verbatim>\<open>transitionTo\<close>: the route that \<^verbatim>\<open>match\<close> returns is a new object. When \<^verbatim>\<open>match\<close> throws,
  so does \<^verbatim>\<open>transitionTo\<close>, and nothing else happens.
\<close>

definition transitionTo :: "History \<Rightarrow> RawLocation \<Rightarrow> OnComplete \<Rightarrow> nat option \<Rightarrow> History" where
  "transitionTo h location oc onAbort =
     (case router_match (router h) location (snd (current h)) of
        Inl e \<Rightarrow> emit [MatchThrew e] h
      | Inr route \<Rightarrow> confirmTransition (h\<lparr>fresh := Suc (fresh h)\<rparr>) (fresh h) route oc onAbort)"

text \<open>\<^verbatim>\<open>push\<close> and \<^verbatim>\<open>replace\<close> as the two history subclasses define them.\<close>

definition History_push :: "History \<Rightarrow> RawLocation \<Rightarrow> nat option \<Rightarrow> nat option \<Rightarrow> History" where
  "History_push h location oc onAbort = transitionTo h location (PushCallback oc) onAbort"

definition History_replace :: "History \<Rightarrow> RawLocation \<Rightarrow> nat option \<Rightarrow> nat option \<Rightarrow> History" where
  "History_replace h location oc onAbort = transitionTo h location (ReplaceCallback oc) onAbort"

subsection \<open>The callback of a hook\<close>

text \<open>
  The value is a redirect when it is a string, or an object whose path or name is a
  string.
\<close>

definition is_redirect :: "JSVal \<Rightarrow> bool" where
  "is_redirect v = (case v of
       JString s \<Rightarrow> True
     | JObject l r \<Rightarrow> loc_path l \<noteq> None \<or> loc_name l \<noteq> None
     | _ \<Rightarrow> False)"

definition redirect_location :: "JSVal \<Rightarrow> RawLocation" where
  "redirect_location v = (case v of JObject l r \<Rightarrow> RawObject l | JString s \<Rightarrow> RawString s
     | _ \<Rightarrow> RawString [])"

definition wants_replace :: "JSVal \<Rightarrow> bool" where
  "wants_replace v = (case v of JObject l r \<Rightarrow> r | _ \<Rightarrow> False)"

text \<open>
  The wrapper of an enter guard keeps a function that the guard passes to \<^verbatim>\<open>next\<close>, to call
  it after the commit, before it passes the value on.
\<close>

definition note_postEnterCb :: "Nav \<Rightarrow> JSVal \<Rightarrow> Nav" where
  "note_postEnterCb nav v =
     (case (nav_queue nav ! nav_index nav, v) of
        (Some (RouteEnterGuard g m key), JFunction f) \<Rightarrow>
          nav\<lparr>nav_postEnterCbs := nav_postEnterCbs nav @ [f]\<rparr>
      | _ \<Rightarrow> nav)"

text \<open>
  The hook in which the navigation \<open>n\<close> waits calls \<^verbatim>\<open>next\<close> with the value \<open>v\<close>:
  \<^verbatim>\<open>false\<close> or an error asks for \<^verbatim>\<open>ensureURL(true)\<close> and aborts with the value; a redirect
  aborts and starts a navigation to the new target through \<^verbatim>\<open>replace\<close> or \<^verbatim>\<open>push\<close>; any
  other value moves to the next index of the queue. A call for a navigation that does not
  wait has no effect: a hook calls \<^verbatim>\<open>next\<close> at most once.
\<close>

definition hook_next :: "History \<Rightarrow> nat \<Rightarrow> JSVal \<Rightarrow> History" where
  "hook_next h n v =
     (case waiting h n of
        None \<Rightarrow> h
      | Some nav \<Rightarrow>
          (let h = h\<lparr>waiting := (waiting h)(n := None)\<rparr>
           in if v = JFalse \<or> isError v then
                abort (emit [EnsureURL True] h) n (nav_onAbort nav) v
              else if is_redirect v then
                (let h = abort h n (nav_onAbort nav) Undefined
                 in if wants_replace v then History_replace h (redirect_location v) None None
                    else History_push h (redirect_location v) None None)
              else
                (let nav = note_postEnterCb nav v
                 in if nav_second nav
                    then run_second h n nav (drop (Suc (nav_index nav)) (nav_queue nav))
                           (Suc (nav_index nav))
                    else run_first h n nav (drop (Suc (nav_index nav)) (nav_queue nav))
                           (Suc (nav_index nav)))))"

text \<open>The hook in which the navigation \<open>n\<close> waits throws: \<^verbatim>\<open>catch (e) { abort(e) }\<close>.\<close>

definition hook_throws :: "History \<Rightarrow> nat \<Rightarrow> JSVal \<Rightarrow> History" where
  "hook_throws h n e =
     (case waiting h n of
        None \<Rightarrow> h
      | Some nav \<Rightarrow> abort (h\<lparr>waiting := (waiting h)(n := None)\<rparr>) n (nav_onAbort nav) e)"

subsection \<open>Registration\<close>

text \<open>
  \<^verbatim>\<open>listen\<close>, \<^verbatim>\<open>onReady\<close> and \<^verbatim>\<open>onError\<close> of \<^verbatim>\<open>History\<close>: the listener is replaced; a ready
  callback is called at once when the engine is ready and kept otherwise, with its error
  callback when there is one; an error callback is kept.
\<close>

definition listen :: "History \<Rightarrow> nat \<Rightarrow> History" where
  "listen h c = h\<lparr>cb := Some c\<rparr>"

definition onReady :: "History \<Rightarrow> nat \<Rightarrow> nat option \<Rightarrow> History" where
  "onReady h c errorCb =
     (if ready h then emit [ReadyNow c] h
      else h\<lparr>readyCbs := readyCbs h @ [c],
             readyErrorCbs := (case errorCb of None \<Rightarrow> readyErrorCbs h
                               | Some e \<Rightarrow> readyErrorCbs h @ [e])\<rparr>)"

definition onError :: "History \<Rightarrow> nat \<Rightarrow> History" where
  "onError h errorCb = h\<lparr>errorCbs := errorCbs h @ [errorCb]\<rparr>"

text \<open>
  \<^verbatim>\<open>beforeEach\<close>, \<^verbatim>\<open>beforeResolve\<close> and \<^verbatim>\<open>afterEach\<close> of index.js: each is
  \<^verbatim>\<open>return registerHook(this.<list>, fn)\<close> on its list of the router. The result is the
  router with the hook pushed, together with the function returned, which works on the
  list of the router at the time it is called.
\<close>

definition beforeEach :: "Router \<Rightarrow> Guard \<Rightarrow> Router \<times> (Router \<Rightarrow> Router)" where
  "beforeEach r fn =
     (case registerHook (beforeHooks r) (Some fn) of
        (list, remove) \<Rightarrow>
          (r\<lparr>beforeHooks := list\<rparr>, \<lambda>r'. r'\<lparr>beforeHooks := remove (beforeHooks r')\<rparr>))"

definition beforeResolve :: "Router \<Rightarrow> Guard \<Rightarrow> Router \<times> (Router \<Rightarrow> Router)" where
  "beforeResolve r fn =
     (case registerHook (resolveHooks r) (Some fn) of
        (list, remove) \<Rightarrow>
          (r\<lparr>resolveHooks := list\<rparr>, \<lambda>r'. r'\<lparr>resolveHooks := remove (resolveHooks r')\<rparr>))"

definition afterEach :: "Router \<Rightarrow> Guard \<Rightarrow> Router \<times> (Router \<Rightarrow> Router)" where
  "afterEach r fn =
     (case registerHook (afterHooks r) (Some fn) of
        (list, remove) \<Rightarrow>
          (r\<lparr>afterHooks := list\<rparr>, \<lambda>r'. r'\<lparr>afterHooks := remove (afterHooks r')\<rparr>))"

text \<open>The three methods by the list they work on.\<close>

datatype HookList = BeforeHooks | ResolveHooks | AfterHooks

definition register :: "HookList \<Rightarrow> Router \<Rightarrow> Guard \<Rightarrow> Router \<times> (Router \<Rightarrow> Router)" where
  "register l r fn =
     (case l of BeforeHooks \<Rightarrow> beforeEach r fn | ResolveHooks \<Rightarrow> beforeResolve r fn
      | AfterHooks \<Rightarrow> afterEach r fn)"

definition hooks :: "HookList \<Rightarrow> Router \<Rightarrow> Guard option list" where
  "hooks l r =
     (case l of BeforeHooks \<Rightarrow> beforeHooks r | ResolveHooks \<Rightarrow> resolveHooks r
      | AfterHooks \<Rightarrow> afterHooks r)"

text \<open>
  A registration on the router of the engine, and a call of the function that such a
  registration returned: that function reads nothing of the router it was returned for,
  so the call is written with the router of the moment.
\<close>

definition register_hook :: "History \<Rightarrow> HookList \<Rightarrow> Guard \<Rightarrow> History" where
  "register_hook h l fn = h\<lparr>router := fst (register l (router h) fn)\<rparr>"

definition unregister_hook :: "History \<Rightarrow> HookList \<Rightarrow> Guard \<Rightarrow> History" where
  "unregister_hook h l fn = h\<lparr>router := snd (register l (router h) fn) (router h)\<rparr>"

subsection \<open>Runs\<close>

text \<open>
  What happens to an engine from outside: a call of \<^verbatim>\<open>transitionTo\<close>, the answer of the hook
  in which a navigation waits, and the registration of a callback or of a hook. Guards
  answer at once or later; a run is any sequence of these events.
\<close>

datatype Event =
    Navigate RawLocation OnComplete "nat option"
  | Next nat JSVal
  | Throws nat JSVal
  | Listen nat
  | OnReady nat "nat option"
  | OnError nat
  | Register HookList Guard
  | Unregister HookList Guard

definition step :: "History \<Rightarrow> Event \<Rightarrow> History" where
  "step h ev =
     (case ev of
        Navigate location oc onAbort \<Rightarrow> transitionTo h location oc onAbort
      | Next n v \<Rightarrow> hook_next h n v
      | Throws n e \<Rightarrow> hook_throws h n e
      | Listen c \<Rightarrow> listen h c
      | OnReady c errorCb \<Rightarrow> onReady h c errorCb
      | OnError errorCb \<Rightarrow> onError h errorCb
      | Register l fn \<Rightarrow> register_hook h l fn
      | Unregister l fn \<Rightarrow> unregister_hook h l fn)"

definition run :: "History \<Rightarrow> Event list \<Rightarrow> History" where
  "run h evs = foldl step h evs"

section \<open>An environment for the examples\<close>

text \<open>
  The examples need the imported helpers at concrete inputs. This environment is a small
  stand-in: an assertion throws when its condition does not hold, as the name says and as
  the call in \<^verbatim>\<open>redirect\<close> reads; paths are matched segment by segment, a segment \<^verbatim>\<open>:name\<close> is a required
  parameter that takes one non-empty segment and \<^verbatim>\<open>*\<close> takes the rest of the path; filling
  a path whose parameter is missing hands back the empty string, the value that makes a
  location path falsy; a string decodes to itself unless it holds a percent sign, which
  stands for a malformed escape; locations pass through normalisation unchanged, strings
  become paths, and the full path of a location is its path followed by its hash.
\<close>

fun split_slash :: "string \<Rightarrow> string list" where
  "split_slash [] = [[]]"
| "split_slash (c # cs) =
     (if c = CHR ''/'' then [] # split_slash cs
      else (case split_slash cs of [] \<Rightarrow> [[c]] | s # ss \<Rightarrow> (c # s) # ss))"

fun join_slash :: "string list \<Rightarrow> string" where
  "join_slash [] = []"
| "join_slash [s] = s"
| "join_slash (s # t # ss) = s @ ''/'' @ join_slash (t # ss)"

definition is_param :: "string \<Rightarrow> bool" where
  "is_param seg = (seg \<noteq> [] \<and> hd seg = CHR '':'')"

definition ex_Regexp :: "string \<Rightarrow> PathToRegexpOptions \<Rightarrow> RouteRegExp" where
  "ex_Regexp path opts =
     \<lparr>re_source = path,
      re_keys = concat (map (\<lambda>seg.
          if seg = ''*'' then [\<lparr>key_name = KIndex 0, key_optional = False\<rparr>]
          else if is_param seg then [\<lparr>key_name = KName (tl seg), key_optional = False\<rparr>]
          else []) (split_slash path))\<rparr>"

fun seg_match :: "string list \<Rightarrow> string list \<Rightarrow> string option list option" where
  "seg_match [] [] = Some []"
| "seg_match [] (x # xs) = None"
| "seg_match (p # ps) xs =
     (if p = ''*'' then Some [Some (join_slash xs)]
      else (case xs of
              [] \<Rightarrow> None
            | x # xs' \<Rightarrow>
                if is_param p
                then (if x = [] then None else map_option (Cons (Some x)) (seg_match ps xs'))
                else if p = x then seg_match ps xs' else None))"

definition ex_str_match :: "string \<Rightarrow> RouteRegExp \<Rightarrow> string option list option" where
  "ex_str_match path regex = seg_match (split_slash (re_source regex)) (split_slash path)"

definition ex_decodeURIComponent :: "string \<Rightarrow> string option" where
  "ex_decodeURIComponent s = (if CHR ''%'' \<in> set s then None else Some s)"

fun ex_cleanPath :: "string \<Rightarrow> string" where
  "ex_cleanPath (a # b # cs) =
     (if a = CHR ''/'' \<and> b = CHR ''/'' then CHR ''/'' # ex_cleanPath cs
      else a # ex_cleanPath (b # cs))"
| "ex_cleanPath cs = cs"

definition ex_resolvePath :: "string \<Rightarrow> string \<Rightarrow> bool \<Rightarrow> string" where
  "ex_resolvePath relative base appnd =
     (if relative \<noteq> [] \<and> hd relative = CHR ''/'' then relative
      else ex_cleanPath (base @ ''/'' @ relative))"

fun fill_segments :: "string list \<Rightarrow> Params \<Rightarrow> string list option" where
  "fill_segments [] params = Some []"
| "fill_segments (seg # segs) params =
     (case (if seg = ''*'' then map_of params ''pathMatch''
            else if is_param seg then map_of params (tl seg)
            else Some (Some seg)) of
        Some (Some v) \<Rightarrow> map_option (Cons v) (fill_segments segs params)
      | _ \<Rightarrow> None)"

definition ex_fillParams :: "string \<Rightarrow> Params option \<Rightarrow> string" where
  "ex_fillParams path params =
     (case fill_segments (split_slash path) (case params of None \<Rightarrow> [] | Some ps \<Rightarrow> ps) of
        None \<Rightarrow> []
      | Some segs \<Rightarrow> join_slash segs)"

definition ex_normalizeLocation :: "RawLocation \<Rightarrow> Route option \<Rightarrow> bool \<Rightarrow> Location" where
  "ex_normalizeLocation raw cur appnd =
     (case raw of
        RawString s \<Rightarrow> \<lparr>loc_normalized = True, loc_name = None, loc_path = Some s,
                        loc_query = None, loc_hash = None, loc_params = None\<rparr>
      | RawObject l \<Rightarrow> l\<lparr>loc_normalized := True\<rparr>)"

definition ex_getFullPath :: "Location \<Rightarrow> string" where
  "ex_getFullPath l =
     (case loc_path l of None \<Rightarrow> ''/'' | Some p \<Rightarrow> if p = [] then ''/'' else p)
     @ (case loc_hash l of None \<Rightarrow> [] | Some h \<Rightarrow> h)"

definition ex_env :: Env where
  "ex_env = \<lparr>dev = True, assert = (\<lambda>condition. if condition then None else Some AssertionFailed),
     Regexp = ex_Regexp, str_match = ex_str_match,
     decodeURIComponent = ex_decodeURIComponent, cleanPath = ex_cleanPath,
     resolvePath = ex_resolvePath, fillParams = ex_fillParams,
     normalizeLocation = ex_normalizeLocation, getFullPath = ex_getFullPath,
     redirect_fn = (\<lambda>f route. RVOther)\<rparr>"

text \<open>A route configuration with a path and, at most, a name, a redirect and an alias.\<close>

definition route_cfg :: "string \<Rightarrow> string option \<Rightarrow> RedirectOption option \<Rightarrow> Alias option \<Rightarrow> RouteConfig" where
  "route_cfg path nm rd al =
     RouteConfig path nm None None rd al None None None None None"

text \<open>The records the example environment builds for a path without parent.\<close>

definition ex_record ::
  "string \<Rightarrow> string option \<Rightarrow> string option \<Rightarrow> RedirectOption option \<Rightarrow> RouteRecord" where
  "ex_record path nm matchAs rd =
     RouteRecord path (ex_Regexp path \<lparr>opt_strict = None, opt_sensitive = None\<rparr>)
       [(''default'', None)] [] nm None matchAs rd None []"

definition ex_location :: "string \<Rightarrow> Location" where
  "ex_location path = \<lparr>loc_normalized = True, loc_name = None, loc_path = Some path,
     loc_query = None, loc_hash = None, loc_params = None\<rparr>"

text \<open>A table with one named route that has two required parameters.\<close>

definition ex_user_routes :: "RouteConfig list" where
  "ex_user_routes = [route_cfg ''/user/:id/:tab'' (Some ''user'') None None]"

text \<open>
  A table with two chains of redirects: from \<^verbatim>\<open>/a\<close> over \<^verbatim>\<open>/b\<close> to \<^verbatim>\<open>/c\<close>, which is an alias
  of \<^verbatim>\<open>/d\<close>, and from \<^verbatim>\<open>/p\<close> over \<^verbatim>\<open>/q\<close> to the plain route \<^verbatim>\<open>/r\<close>.
\<close>

definition ex_chain_routes :: "RouteConfig list" where
  "ex_chain_routes =
     [route_cfg ''/a'' None (Some (RedirectString ''/b'')) None,
      route_cfg ''/b'' None (Some (RedirectString ''/c'')) None,
      route_cfg ''/d'' None None (Some (AliasString ''/c'')),
      route_cfg ''/p'' None (Some (RedirectString ''/q'')) None,
      route_cfg ''/q'' None (Some (RedirectString ''/r'')) None,
      route_cfg ''/r'' None None None]"

text \<open>A location by name only: the parameters of the named route are left out.\<close>

definition ex_user_bare :: Location where
  "ex_user_bare =
     \<lparr>loc_normalized = False, loc_name = Some ''user'', loc_path = None, loc_query = None,
      loc_hash = None, loc_params = None\<rparr>"

text \<open>A redirect given as a function; in the example environment its value is no object.\<close>

definition ex_bad_routes :: "RouteConfig list" where
  "ex_bad_routes = [route_cfg ''/bad'' None (Some (RedirectFunction 0)) None]"

text \<open>
  A table whose only record redirects to a name that is not registered.
\<close>

definition ex_named_routes :: "RouteConfig list" where
  "ex_named_routes =
     [route_cfg ''/old'' None
        (Some (RedirectObject \<lparr>ro_name = Some ''nowhere'', ro_path = None, ro_query = None,
                                ro_hash = None, ro_params = None\<rparr>)) None]"

text \<open>
  A chain of two redirects whose records name their parameter differently.
\<close>

definition ex_param_routes :: "RouteConfig list" where
  "ex_param_routes =
     [route_cfg ''/a/:x'' None (Some (RedirectString ''/b/:x'')) None,
      route_cfg ''/b/:y'' None (Some (RedirectString ''/c/:y'')) None,
      route_cfg ''/c/:z'' None None None]"

text \<open>
  A named route whose required parameter has a name that every object inherits, a current
  route on it, and a location by that name only.
\<close>

definition ex_inherit_routes :: "RouteConfig list" where
  "ex_inherit_routes = [route_cfg ''/x/:toString'' (Some ''x'') None None]"

definition ex_inherit_route :: Route where
  "ex_inherit_route =
     \<lparr>route_name = Some ''x'', route_meta = [], route_path = ''/x/1'',
      route_hash = [], route_query = [], route_params = [(''toString'', Some ''1'')],
      route_fullPath = ''/x/1'',
      route_matched = [ex_record ''/x/:toString'' (Some ''x'') None None],
      route_redirectedFrom = None\<rparr>"

definition ex_inherit_target :: Location where
  "ex_inherit_target =
     \<lparr>loc_normalized = False, loc_name = Some ''x'', loc_path = None, loc_query = None,
      loc_hash = None, loc_params = None\<rparr>"

text \<open>
  A table with two redirects and a wildcard, and routes added to it later: one of them
  repeats a path, the other is the target of the first redirect.
\<close>

definition ex_wild_routes :: "RouteConfig list" where
  "ex_wild_routes =
     [route_cfg ''/a'' None (Some (RedirectString ''/b'')) None,
      route_cfg ''/c'' None (Some (RedirectString ''/d'')) None,
      route_cfg ''/d'' None None None,
      route_cfg ''*'' None None None]"

definition ex_wild_more :: "RouteConfig list" where
  "ex_wild_more =
     [route_cfg ''/d'' (Some ''again'') (Some (RedirectString ''/a'')) None,
      route_cfg ''/b'' None None None]"

text \<open>
  A router for the examples of the engine: three plain routes, no hook registered yet, no
  app attached, and the matcher of the example environment on a stack without a level for
  redirects.
\<close>

definition ex_page_routes :: "RouteConfig list" where
  "ex_page_routes =
     [route_cfg ''/x'' None None None, route_cfg ''/y'' None None None,
      route_cfg ''/z'' None None None]"

definition ex_router :: Router where
  "ex_router =
     \<lparr>beforeHooks = [], resolveHooks = [], afterHooks = [], app = False,
      router_match = VueRouter_match 0 ex_env (createMatcher ex_env ex_page_routes)\<rparr>"

text \<open>The route that \<^verbatim>\<open>match\<close> returns for one of the three paths.\<close>

definition ex_page :: "string \<Rightarrow> Route" where
  "ex_page path =
     createRoute ex_env (Some (ex_record path None None None))
       ((ex_location path)\<lparr>loc_params := Some []\<rparr>) None"

text \<open>
  A first run: a before hook, a resolve hook and an after hook are registered, a listener,
  an error callback and a ready callback with its error callback, and a navigation to
  \<^verbatim>\<open>/x\<close> whose three guards proceed.
\<close>

definition ex_setup :: "Event list" where
  "ex_setup =
     [Register BeforeHooks 7, Register ResolveHooks 8, Register AfterHooks 9, Listen 4, OnError 6,
      OnReady 10 (Some 11)]"

definition ex_to_x :: "Event list" where
  "ex_to_x =
     ex_setup @ [Navigate (RawString ''/x'') (UserCallback 2) (Some 3),
                 Next 1 Undefined, Next 1 Undefined, Next 1 Undefined]"

text \<open>The router after the registrations, and the engine after the first run.\<close>

definition ex_hooked :: Router where
  "ex_hooked = ex_router\<lparr>beforeHooks := [Some 7], resolveHooks := [Some 8], afterHooks := [Some 9]\<rparr>"

definition ex_on_x :: History where
  "ex_on_x =
     \<lparr>router = ex_hooked, current = (1, ex_page ''/x''), pending = None, cb = Some 4,
      ready = True, readyCbs = [10], readyErrorCbs = [11], errorCbs = [6], waiting = Map.empty,
      fresh = 2,
      effects = [Invoke 1 False 0 (PlainGuard 7),
        Invoke 1 False 2 (ResolveAsyncComponents [ex_record ''/x'' None None None]),
        Invoke 1 True 1 (PlainGuard 8),
        UpdateRoute 1, Listener 4 1, AfterHook 9 1, UserComplete 2 1, EnsureURL False,
        ReadyCb 10 1]\<rparr>"

text \<open>
  The variables of a navigation from \<^verbatim>\<open>/x\<close> to another of the three paths, and its two
  queues: the leave guards of \<^verbatim>\<open>/x\<close> give one entry without a guard, and so do the
  route-scoped guard and the enter guards of the new record.
\<close>

definition ex_nav :: "string \<Rightarrow> Hook option list \<Rightarrow> nat \<Rightarrow> bool \<Rightarrow> Nav" where
  "ex_nav path queue i second =
     \<lparr>nav_route = ex_page path, nav_activated = [ex_record path None None None],
      nav_queue = queue, nav_index = i, nav_second = second, nav_postEnterCbs = [],
      nav_onComplete = UserCallback 2, nav_onAbort = Some 3\<rparr>"

definition ex_first :: "string \<Rightarrow> Hook option list" where
  "ex_first path =
     [None, Some (PlainGuard 7), None,
      Some (ResolveAsyncComponents [ex_record path None None None])]"

definition ex_second :: "Hook option list" where
  "ex_second = [None, Some (PlainGuard 8)]"

text \<open>
  Records with in-component guards and live instances: a layout with an update hook, below
  it an old branch of two records with leave guards (one view has an array of two), and a
  new record with a route-scoped guard and an enter guard. An engine whose current route
  is on the old branch and whose router matches every location to the new record, with a
  before hook and a resolve hook registered.
\<close>

definition ex_layout :: RouteRecord where
  "ex_layout =
     RouteRecord ''/app'' (ex_Regexp ''/app'' \<lparr>opt_strict = None, opt_sensitive = None\<rparr>)
       [(''default'', Some \<lparr>beforeRouteLeave = OneGuard 21, beforeRouteUpdate = OneGuard 20,
                             beforeRouteEnter = NoGuard\<rparr>)]
       [(''default'', 100)] None None None None None []"

definition ex_old_outer :: RouteRecord where
  "ex_old_outer =
     RouteRecord ''/app/old'' (ex_Regexp ''/app/old'' \<lparr>opt_strict = None, opt_sensitive = None\<rparr>)
       [(''default'', Some \<lparr>beforeRouteLeave = OneGuard 31, beforeRouteUpdate = NoGuard,
                             beforeRouteEnter = NoGuard\<rparr>),
        (''side'', Some \<lparr>beforeRouteLeave = GuardArray [32, 33], beforeRouteUpdate = NoGuard,
                          beforeRouteEnter = NoGuard\<rparr>)]
       [(''default'', 101), (''side'', 102)] None (Some ex_layout) None None None []"

definition ex_old_inner :: RouteRecord where
  "ex_old_inner =
     RouteRecord ''/app/old/deep''
       (ex_Regexp ''/app/old/deep'' \<lparr>opt_strict = None, opt_sensitive = None\<rparr>)
       [(''default'', Some \<lparr>beforeRouteLeave = OneGuard 34, beforeRouteUpdate = OneGuard 35,
                             beforeRouteEnter = NoGuard\<rparr>)]
       [(''default'', 103)] None (Some ex_old_outer) None None None []"

definition ex_new :: RouteRecord where
  "ex_new =
     RouteRecord ''/app/new'' (ex_Regexp ''/app/new'' \<lparr>opt_strict = None, opt_sensitive = None\<rparr>)
       [(''default'', Some \<lparr>beforeRouteLeave = OneGuard 51, beforeRouteUpdate = NoGuard,
                             beforeRouteEnter = OneGuard 50\<rparr>)]
       [] None (Some ex_layout) None None (Some 40) []"

definition ex_nested_route :: "string \<Rightarrow> RouteRecord list \<Rightarrow> Route" where
  "ex_nested_route path matched =
     \<lparr>route_name = None, route_meta = [], route_path = path, route_hash = [], route_query = [],
      route_params = [], route_fullPath = path, route_matched = matched,
      route_redirectedFrom = None\<rparr>"

definition ex_nested :: History where
  "ex_nested =
     \<lparr>router = \<lparr>beforeHooks = [Some 7], resolveHooks = [Some 8], afterHooks = [], app = True,
                 router_match = (\<lambda>raw cur. Inr (ex_nested_route ''/app/new'' [ex_layout, ex_new]))\<rparr>,
      current = (1, ex_nested_route ''/app/old/deep'' [ex_layout, ex_old_outer, ex_old_inner]),
      pending = None, cb = None, ready = True, readyCbs = [], readyErrorCbs = [], errorCbs = [],
      waiting = Map.empty, fresh = 2, effects = []\<rparr>"

section \<open>Notions used in the statements\<close>

text \<open>
  A table as the builder leaves it: the paths of the list are the keys of the path map,
  none twice, and every record is stored under its own path.
\<close>

definition table_inv :: "RouteMap \<Rightarrow> bool" where
  "table_inv t \<longleftrightarrow>
     distinct (pathList t) \<and> set (pathList t) = dom (pathMap t)
     \<and> (\<forall>p r. pathMap t p = Some r \<longrightarrow> rec_path r = p)"

text \<open>
  Additive registration: every entry of the path map and of the name map stays as it is,
  and the path list is the old list followed by the paths that are new.
\<close>

definition grows :: "RouteMap \<Rightarrow> RouteMap \<Rightarrow> bool" where
  "grows t t' \<longleftrightarrow>
     pathMap t \<subseteq>\<^sub>m pathMap t' \<and> nameMap t \<subseteq>\<^sub>m nameMap t'
     \<and> (\<exists>ys. pathList t' = pathList t @ ys \<and> distinct ys
            \<and> set ys \<inter> dom (pathMap t) = {}
            \<and> dom (pathMap t') = dom (pathMap t) \<union> set ys
            \<and> (\<forall>p r. p \<in> set ys \<longrightarrow> pathMap t' p = Some r \<longrightarrow> rec_path r = p))"

text \<open>The pattern of the record registered under a path does not match.\<close>

definition no_match :: "Env \<Rightarrow> (string \<rightharpoonup> RouteRecord) \<Rightarrow> string \<Rightarrow> string \<Rightarrow> bool" where
  "no_match env pm path p =
     (case pm p of None \<Rightarrow> False | Some r \<Rightarrow> str_match env path (rec_regex r) = None)"

text \<open>
  A table as \<^verbatim>\<open>createRouteMap\<close> returns it: the invariant above, and the wildcard is last.
\<close>

definition built :: "RouteMap \<Rightarrow> bool" where
  "built t \<longleftrightarrow> table_inv t \<and> ensure_wildcard_last (pathList t) = pathList t"

text \<open>A record that is neither a redirect nor an alias.\<close>

definition normal_record :: "RouteRecord \<Rightarrow> bool" where
  "normal_record r \<longleftrightarrow> \<not> redirect_truthy (rec_redirect r) \<and> \<not> truthy (rec_matchAs r)"

text \<open>
  A redirect that \<^verbatim>\<open>redirect\<close> rejects: its value is no object, or the object has neither a
  name nor a path.
\<close>

definition malformed_redirect :: "Env \<Rightarrow> RouteRecord \<Rightarrow> Location \<Rightarrow> bool" where
  "malformed_redirect env r location =
     (case redirect_value env r location of
        None \<Rightarrow> True
      | Some re \<Rightarrow> redirect_target env r location re = None)"

text \<open>
  One hop of a redirect, as \<^verbatim>\<open>redirect\<close> takes it: the target of the redirecting record \<open>r\<close>
  is built from the original location \<open>orig\<close> (its query, hash and params, also when an
  earlier hop has led to \<open>r\<close>), the assertion of development builds holds, and the lookup
  of the target finds a record; the result is that record and the location of the lookup.
\<close>

definition hop :: "Env \<Rightarrow> RouteMap \<Rightarrow> Location \<Rightarrow> RouteRecord \<Rightarrow> (RouteRecord \<times> Location) option" where
  "hop env tbl orig r =
     (if \<not> redirect_truthy (rec_redirect r) then None
      else case redirect_value env r orig of
             None \<Rightarrow> None
           | Some re \<Rightarrow>
               (case redirect_target env r orig re of
                  None \<Rightarrow> None
                | Some target \<Rightarrow>
                    (case redirect_assert env tbl re of
                       Some e \<Rightarrow> None
                     | None \<Rightarrow>
                         (case match_lookup env tbl (RawObject target) None (Some orig) of
                            Inr (Some r', location, rf) \<Rightarrow> Some (r', location)
                          | _ \<Rightarrow> None))))"

text \<open>
  A chain of redirecting records: each hop leads to the next record of the list, the last
  hop to the record \<open>final\<close> at the location \<open>final_location\<close>.
\<close>

fun redirect_chain ::
  "Env \<Rightarrow> RouteMap \<Rightarrow> Location \<Rightarrow> RouteRecord list \<Rightarrow> RouteRecord \<Rightarrow> Location \<Rightarrow> bool" where
  "redirect_chain env tbl orig [] final final_location = False"
| "redirect_chain env tbl orig [r] final final_location =
     (hop env tbl orig r = Some (final, final_location))"
| "redirect_chain env tbl orig (r # r' # rs) final final_location =
     (case hop env tbl orig r of
        None \<Rightarrow> False
      | Some (x, location) \<Rightarrow> x = r' \<and> redirect_chain env tbl orig (r' # rs) final final_location)"

text \<open>
  The effects of a commit of the navigation \<open>n\<close>: \<^verbatim>\<open>updateRoute\<close> with its route, and what
  the completion callback does after it.
\<close>

definition commit_of :: "nat \<Rightarrow> Effect \<Rightarrow> bool" where
  "commit_of n e = (case e of
       UpdateRoute m \<Rightarrow> m = n
     | Listener c m \<Rightarrow> m = n
     | AfterHook g m \<Rightarrow> m = n
     | UserComplete c m \<Rightarrow> m = n
     | PushState m \<Rightarrow> m = n
     | ReplaceState m \<Rightarrow> m = n
     | ReadyCb c m \<Rightarrow> m = n
     | NextTick m cbs \<Rightarrow> m = n
     | _ \<Rightarrow> False)"

text \<open>The call of a guard, of either queue.\<close>

definition is_invoke :: "Effect \<Rightarrow> bool" where
  "is_invoke e = (case e of Invoke n b i hook \<Rightarrow> True | _ \<Rightarrow> False)"

text \<open>A call of an error callback registered with \<^verbatim>\<open>onError\<close>, or the warning in their place.\<close>

definition is_error_report :: "Effect \<Rightarrow> bool" where
  "is_error_report e = (case e of ErrorCb c v \<Rightarrow> True | Warn v \<Rightarrow> True | _ \<Rightarrow> False)"

text \<open>The effects since the state \<open>h\<close>, in a later state \<open>h'\<close>.\<close>

definition since :: "History \<Rightarrow> History \<Rightarrow> Effect list" where
  "since h h' = drop (length (effects h)) (effects h')"

text \<open>What \<^verbatim>\<open>abort\<close> does, in order.\<close>

definition abort_effects :: "History \<Rightarrow> nat \<Rightarrow> nat option \<Rightarrow> JSVal \<Rightarrow> Effect list" where
  "abort_effects h n onAbort err =
     (if \<not> isNavigationDuplicated err \<and> isError err
      then (if errorCbs h \<noteq> [] then map (\<lambda>c. ErrorCb c err) (errorCbs h) else [Warn err])
      else [])
     @ [AbortCb n err]
     @ (case onAbort of None \<Rightarrow> [] | Some c \<Rightarrow> [UserAbort c err])
     @ (if js_truthy err \<and> \<not> ready h then map (\<lambda>c. ReadyErrorCb c err) (readyErrorCbs h) else [])"

text \<open>The guards of the first queue that the navigation \<open>n\<close> called, in the order of the calls.\<close>

definition first_calls :: "nat \<Rightarrow> Effect list \<Rightarrow> Hook list" where
  "first_calls n es =
     concat (map (\<lambda>e. case e of Invoke m b i hook \<Rightarrow> (if m = n \<and> \<not> b then [hook] else [])
                        | _ \<Rightarrow> []) es)"

text \<open>The guards of a queue, without the entries that hold none.\<close>

definition guards_of :: "Hook option list \<Rightarrow> Hook list" where
  "guards_of q = concat (map (\<lambda>x. case x of None \<Rightarrow> [] | Some hook \<Rightarrow> [hook]) q)"

text \<open>The leave guards of one record: its views from the last to the first.\<close>

definition record_guards ::
  "GuardName \<Rightarrow> (Guard \<Rightarrow> Instance option \<Rightarrow> RouteRecord \<Rightarrow> string \<Rightarrow> Hook option)
     \<Rightarrow> RouteRecord \<Rightarrow> Entry list" where
  "record_guards name bind m =
     map (\<lambda>(key, def).
            case extractGuard def name of
              NoGuard \<Rightarrow> EUndefined
            | OneGuard guard \<Rightarrow> ESingle (bind guard (map_of (rec_instances m) key) m key)
            | GuardArray gs \<Rightarrow> EArray (map (\<lambda>guard. bind guard (map_of (rec_instances m) key) m key) gs))
         (rec_components m)"

text \<open>
  The condition of \<^verbatim>\<open>confirmTransition\<close> for a duplicate navigation: the route is the same as
  the current one and its matched chain has the same length.
\<close>

definition duplicate :: "History \<Rightarrow> Route \<Rightarrow> bool" where
  "duplicate h route \<longleftrightarrow>
     isSameRoute route (snd (current h))
     \<and> length (route_matched route) = length (route_matched (snd (current h)))"

text \<open>
  The location \<^verbatim>\<open>alias\<close> looks up: the path of the aliased record, filled with the params
  of the location.
\<close>

definition alias_target :: "Env \<Rightarrow> string \<Rightarrow> Location \<Rightarrow> RawLocation" where
  "alias_target env matchAs location =
     RawObject \<lparr>loc_normalized = True, loc_name = None,
                loc_path = Some (fillParams env matchAs (loc_params location)),
                loc_query = None, loc_hash = None, loc_params = None\<rparr>"

text \<open>
  Two tables resolve a record alike, on a stack of the given depth: every lookup that
  \<^verbatim>\<open>redirect\<close> and \<^verbatim>\<open>alias\<close> make on the way, and the assertion of \<^verbatim>\<open>redirect\<close>, give the same
  in both.
\<close>

primrec resolves_alike ::
  "nat \<Rightarrow> Env \<Rightarrow> RouteMap \<Rightarrow> RouteMap \<Rightarrow> RouteRecord option \<Rightarrow> Location \<Rightarrow> Location option \<Rightarrow> bool"
where
  "resolves_alike 0 env t t' rcd location rf = True"
| "resolves_alike (Suc d) env t t' rcd location rf =
     (case rcd of
        None \<Rightarrow> True
      | Some r \<Rightarrow>
          if redirect_truthy (rec_redirect r) then
            (case redirect_value env r (case rf of None \<Rightarrow> location | Some l \<Rightarrow> l) of
               None \<Rightarrow> True
             | Some re \<Rightarrow>
                 (case redirect_target env r (case rf of None \<Rightarrow> location | Some l \<Rightarrow> l) re of
                    None \<Rightarrow> True
                  | Some target \<Rightarrow>
                      redirect_assert env t' re = redirect_assert env t re
                      \<and> (redirect_assert env t re = None \<longrightarrow>
                           match_lookup env t' (RawObject target) None
                               (Some (case rf of None \<Rightarrow> location | Some l \<Rightarrow> l))
                             = match_lookup env t (RawObject target) None
                                 (Some (case rf of None \<Rightarrow> location | Some l \<Rightarrow> l))
                           \<and> (case match_lookup env t (RawObject target) None
                                      (Some (case rf of None \<Rightarrow> location | Some l \<Rightarrow> l)) of
                                 Inl e \<Rightarrow> True
                               | Inr (rcd', location', rf') \<Rightarrow>
                                   resolves_alike d env t t' rcd' location' rf'))))
          else if truthy (rec_matchAs r) then
            match_lookup env t' (alias_target env (the (rec_matchAs r)) location) None None
              = match_lookup env t (alias_target env (the (rec_matchAs r)) location) None None
            \<and> (case match_lookup env t (alias_target env (the (rec_matchAs r)) location) None None of
                 Inl e \<Rightarrow> True
               | Inr (rcd', location', rf') \<Rightarrow>
                   resolves_alike d env t t' rcd' location' rf'
                   \<and> (case createRoute_internal d env t rcd' location' rf' of
                        Inl e \<Rightarrow> True
                      | Inr aliasedMatch \<Rightarrow>
                          resolves_alike d env t t'
                            (if route_matched aliasedMatch = [] then None
                             else Some (last (route_matched aliasedMatch)))
                            (location\<lparr>loc_params := Some (route_params aliasedMatch)\<rparr>) None))
          else True)"

section \<open>Notions used in the proofs about the engine\<close>

text \<open>What the completion callback of \<^verbatim>\<open>transitionTo\<close> does, in order.\<close>

definition commit_effects :: "History \<Rightarrow> nat \<Rightarrow> OnComplete \<Rightarrow> Effect list" where
  "commit_effects h n oc =
     UpdateRoute n
     # (case cb h of None \<Rightarrow> [] | Some c \<Rightarrow> [Listener c n])
     @ concat (map (\<lambda>hook. case hook of None \<Rightarrow> [] | Some g \<Rightarrow> [AfterHook g n])
                   (afterHooks (router h)))
     @ call_onComplete oc n
     @ [EnsureURL False]
     @ (if \<not> ready h then map (\<lambda>c. ReadyCb c n) (readyCbs h) else [])"

text \<open>The first entry of the rest of a queue that holds a guard, with its index.\<close>

fun skip_none :: "Hook option list \<Rightarrow> nat \<Rightarrow> (nat \<times> Hook) option" where
  "skip_none [] i = None"
| "skip_none (None # q) i = skip_none q (Suc i)"
| "skip_none (Some hook # q) i = Some (i, hook)"

text \<open>
  The three ways in which a step of a queue ends, as states: the navigation commits, or it
  calls the guard at an index and waits there (the third is \<^verbatim>\<open>abort\<close>).
\<close>

definition commits :: "History \<Rightarrow> nat \<Rightarrow> Nav \<Rightarrow> History" where
  "commits h n nav =
     h\<lparr>pending := None, current := (n, nav_route nav), ready := True,
       effects := effects h @ commit_effects h n (nav_onComplete nav)
                  @ (if app (router h) then [NextTick n (nav_postEnterCbs nav)] else [])\<rparr>"

definition invokes :: "History \<Rightarrow> nat \<Rightarrow> Nav \<Rightarrow> nat \<Rightarrow> Hook \<Rightarrow> History" where
  "invokes h n nav j hook =
     h\<lparr>waiting := (waiting h)(n \<mapsto> nav\<lparr>nav_index := j\<rparr>),
       effects := effects h @ [Invoke n (nav_second nav) j hook]\<rparr>"

text \<open>The variables of a call of \<^verbatim>\<open>confirmTransition\<close> when its first queue starts.\<close>

definition start_nav :: "History \<Rightarrow> Route \<Rightarrow> OnComplete \<Rightarrow> nat option \<Rightarrow> Nav" where
  "start_nav h route oc onAbort =
     \<lparr>nav_route = route,
      nav_activated = fst (snd (resolveQueue (route_matched (snd (current h))) (route_matched route))),
      nav_queue = first_queue (router h) (snd (current h)) route,
      nav_index = 0, nav_second = False, nav_postEnterCbs = [],
      nav_onComplete = oc, nav_onAbort = onAbort\<rparr>"

text \<open>The navigations whose route object was made between two states.\<close>

definition created :: "History \<Rightarrow> History \<Rightarrow> nat \<Rightarrow> bool" where
  "created h h' k \<longleftrightarrow> fresh h \<le> k \<and> k < fresh h'"

text \<open>
  From \<open>h\<close> to \<open>h'\<close> only the navigations in \<open>P\<close> and the new ones act: effects are added,
  a commit is of a navigation in \<open>P\<close>, a guard is called for a navigation in \<open>P\<close> or for a
  new one, the current route changes only with a commit, and every other navigation waits
  as before and does not become the pending one.
\<close>

definition frame :: "(nat \<Rightarrow> bool) \<Rightarrow> History \<Rightarrow> History \<Rightarrow> bool" where
  "frame P h h' \<longleftrightarrow>
     fresh h \<le> fresh h'
     \<and> (\<exists>es. effects h' = effects h @ es
            \<and> (\<forall>e\<in>set es. \<forall>k. commit_of k e \<longrightarrow> P k)
            \<and> (\<forall>e\<in>set es. \<forall>k b i hk. e = Invoke k b i hk \<longrightarrow> P k \<or> created h h' k)
            \<and> ((\<forall>k. UpdateRoute k \<notin> set es) \<longrightarrow> current h' = current h))
     \<and> (\<forall>k. \<not> P k \<longrightarrow> \<not> created h h' k \<longrightarrow>
            waiting h' k = waiting h k \<and> (pending h' = Some k \<longrightarrow> pending h = Some k))"

text \<open>The navigation whose hook answers in an event.\<close>

definition actor :: "Event \<Rightarrow> nat option" where
  "actor ev = (case ev of Next n v \<Rightarrow> Some n | Throws n e \<Rightarrow> Some n | _ \<Rightarrow> None)"

text \<open>
  What a step does for the navigation \<open>n\<close> that acts in it: it commits or calls a guard
  only when it is the pending one, it does not become the pending one, and after its
  commit it waits no more.
\<close>

definition own :: "nat \<Rightarrow> History \<Rightarrow> History \<Rightarrow> bool" where
  "own n h h' \<longleftrightarrow>
     (pending h' = Some n \<longrightarrow> pending h = Some n)
     \<and> (\<forall>e\<in>set (since h h'). commit_of n e \<or> (\<exists>b i hk. e = Invoke n b i hk) \<longrightarrow>
            pending h = Some n)
     \<and> ((\<exists>e\<in>set (since h h'). commit_of n e) \<longrightarrow> waiting h' n = None)"

text \<open>
  A state in which the identities in use are below the next unused one: those of the
  navigations that wait, and those of the commits so far.
\<close>

definition sound :: "History \<Rightarrow> bool" where
  "sound h \<longleftrightarrow>
     (\<forall>k. waiting h k \<noteq> None \<longrightarrow> k < fresh h)
     \<and> (\<forall>e\<in>set (effects h). \<forall>k. commit_of k e \<longrightarrow> k < fresh h)"

text \<open>
  A step after which the navigation \<open>n\<close> waits no more and in which none of its guards was
  called.
\<close>

definition quiet :: "nat \<Rightarrow> History \<Rightarrow> History \<Rightarrow> bool" where
  "quiet n h h' \<longleftrightarrow>
     waiting h' n = None
     \<and> (\<exists>es. effects h' = effects h @ es \<and> (\<forall>b i hk. Invoke n b i hk \<notin> set es))"

text \<open>A step in which a guard of the second queue of \<open>n\<close> was called, and nothing else was done.\<close>

definition enters_second :: "nat \<Rightarrow> History \<Rightarrow> History \<Rightarrow> bool" where
  "enters_second n h h' \<longleftrightarrow>
     (\<exists>j hook nav'. effects h' = effects h @ [Invoke n True j hook]
        \<and> waiting h' n = Some nav' \<and> nav_second nav')"

text \<open>
  A step in which the guard where \<open>n\<close> waits in its first queue proceeds and the next guard
  of that queue is called.
\<close>

definition calls_next :: "nat \<Rightarrow> Nav \<Rightarrow> JSVal \<Rightarrow> History \<Rightarrow> History \<Rightarrow> bool" where
  "calls_next n nav v h h' \<longleftrightarrow>
     \<not> nav_second nav \<and> v \<noteq> JFalse \<and> \<not> isError v \<and> \<not> is_redirect v \<and> pending h = Some n
     \<and> (\<exists>j hook nav'.
           skip_none (drop (Suc (nav_index nav)) (nav_queue nav)) (Suc (nav_index nav))
             = Some (j, hook)
           \<and> effects h' = effects h @ [Invoke n False j hook]
           \<and> waiting h' n = Some nav' \<and> nav_queue nav' = nav_queue nav \<and> nav_index nav' = j
           \<and> \<not> nav_second nav')"

text \<open>
  What holds of the first queue \<open>Q\<close> of the navigation \<open>n\<close>, started in \<open>h0\<close>, in a later
  state: while it waits in the first queue, the guards called are those of the queue up to
  the index where it waits, and none of the second queue was called; once a guard of the
  second queue was called, all of the first were.
\<close>

definition queue_inv :: "nat \<Rightarrow> Hook option list \<Rightarrow> History \<Rightarrow> History \<Rightarrow> bool" where
  "queue_inv n Q h0 h \<longleftrightarrow>
     n < fresh h
     \<and> (\<exists>es. effects h = effects h0 @ es)
     \<and> (\<exists>k. 0 < k \<and> k \<le> length Q \<and> first_calls n (since h0 h) = guards_of (take k Q))
     \<and> (\<forall>nav. waiting h n = Some nav \<longrightarrow>
          (if nav_second nav then first_calls n (since h0 h) = guards_of Q
           else nav_queue nav = Q \<and> nav_index nav < length Q \<and> Q ! nav_index nav \<noteq> None
                \<and> first_calls n (since h0 h) = guards_of (take (Suc (nav_index nav)) Q)
                \<and> (\<forall>i hook. Invoke n True i hook \<notin> set (since h0 h))))
     \<and> ((\<exists>i hook. Invoke n True i hook \<in> set (since h0 h))
          \<longrightarrow> first_calls n (since h0 h) = guards_of Q)"

section \<open>Properties of hook registration\<close>

lemma indexOf_from_absent: "x \<notin> set xs \<Longrightarrow> indexOf_from xs x i = - 1"
  by (induction xs arbitrary: i) auto

lemma indexOf_from_present:
  "x \<in> set xs \<Longrightarrow> \<exists>k. indexOf_from xs x i = int (i + k) \<and> k < length xs \<and> xs ! k = x
     \<and> x \<notin> set (take k xs)"
proof (induction xs arbitrary: i)
  case Nil
  then show ?case by simp
next
  case (Cons y ys)
  show ?case
  proof (cases "y = x")
    case True
    then show ?thesis by (intro exI [of _ 0]) simp
  next
    case False
    with Cons.prems have "x \<in> set ys" by simp
    from Cons.IH [OF this, of "Suc i"] obtain k where
      k: "indexOf_from ys x (Suc i) = int (Suc i + k)" "k < length ys" "ys ! k = x"
         "x \<notin> set (take k ys)" by blast
    with False show ?thesis by (intro exI [of _ "Suc k"]) simp
  qed
qed

lemma remove1_at_first:
  "k < length xs \<Longrightarrow> xs ! k = x \<Longrightarrow> x \<notin> set (take k xs)
     \<Longrightarrow> take k xs @ drop (Suc k) xs = remove1 x xs"
proof (induction xs arbitrary: k)
  case Nil
  then show ?case by simp
next
  case (Cons y ys)
  then show ?case by (cases k) auto
qed

lemma unregister_remove1: "unregister fn xs = remove1 fn xs"
proof (cases "fn \<in> set xs")
  case False
  then show ?thesis
    by (simp add: unregister_def indexOf_def indexOf_from_absent remove1_idem)
next
  case True
  from indexOf_from_present [OF True, of 0] obtain k where
    k: "indexOf_from xs fn 0 = int k" "k < length xs" "xs ! k = fn" "fn \<notin> set (take k xs)"
    by auto
  then show ?thesis
    by (simp add: unregister_def indexOf_def splice1_def remove1_at_first)
qed

lemma remove1_first_occurrence:
  "fn \<in> set ys \<Longrightarrow> \<exists>pre post. ys = pre @ fn # post \<and> fn \<notin> set pre \<and> remove1 fn ys = pre @ post"
proof -
  assume "fn \<in> set ys"
  then obtain pre post where p: "ys = pre @ fn # post" "fn \<notin> set pre"
    by (auto dest: split_list_first)
  then have "remove1 fn ys = pre @ post" by (simp add: remove1_append)
  with p show ?thesis by blast
qed

lemma remove1_still_there: "fn \<in> set (remove1 fn ys) \<longleftrightarrow> 1 < count_list ys fn"
proof (induction ys)
  case Nil
  show ?case by simp
next
  case (Cons y ys)
  show ?case
  proof (cases "y = fn")
    case True
    have "fn \<in> set ys \<longleftrightarrow> 0 < count_list ys fn"
      using count_list_0_iff [of ys fn] by auto
    with True show ?thesis by simp
  next
    case False
    with Cons.IH show ?thesis by simp
  qed
qed

lemma register_fst:
  "fst (beforeEach r fn) = r\<lparr>beforeHooks := beforeHooks r @ [Some fn]\<rparr>"
  "fst (beforeResolve r fn) = r\<lparr>resolveHooks := resolveHooks r @ [Some fn]\<rparr>"
  "fst (afterEach r fn) = r\<lparr>afterHooks := afterHooks r @ [Some fn]\<rparr>"
  by (simp_all add: beforeEach_def beforeResolve_def afterEach_def registerHook_def)

lemma register_snd:
  "snd (beforeEach r fn) r' = r'\<lparr>beforeHooks := remove1 (Some fn) (beforeHooks r')\<rparr>"
  "snd (beforeResolve r fn) r' = r'\<lparr>resolveHooks := remove1 (Some fn) (resolveHooks r')\<rparr>"
  "snd (afterEach r fn) r' = r'\<lparr>afterHooks := remove1 (Some fn) (afterHooks r')\<rparr>"
  by (simp_all add: beforeEach_def beforeResolve_def afterEach_def registerHook_def
        unregister_remove1)

lemma hooks_register:
  "hooks l (fst (register l r fn)) = hooks l r @ [Some fn]"
  "hooks l (snd (register l r fn) r') = remove1 (Some fn) (hooks l r')"
  by (cases l; simp add: hooks_def register_def register_fst register_snd)+

lemma register_absent:
  "Some fn \<notin> set (hooks l r') \<Longrightarrow> snd (register l r fn) r' = r'"
  by (cases l) (simp_all add: hooks_def register_def register_snd remove1_idem)

text \<open>
  C10, as the code has it. \<^verbatim>\<open>beforeEach\<close>, \<^verbatim>\<open>beforeResolve\<close> and \<^verbatim>\<open>afterEach\<close> push the hook at
  the end of their list of the router and return a function. Called on a router, that
  function removes the first occurrence of the hook from that list, as the list then
  stands, and nothing else; when the hook is not in the list the router stays as it is.
  After the call the hook is still in the list exactly when it stood there more than once:
  a hook that stood there once is gone, and is not among the hooks that later navigations
  take from the list. The same holds for the two events of the engine.
\<close>

theorem hook_methods_deregister:
  "fst (beforeEach r fn) = r\<lparr>beforeHooks := beforeHooks r @ [Some fn]\<rparr>
   \<and> fst (beforeResolve r fn) = r\<lparr>resolveHooks := resolveHooks r @ [Some fn]\<rparr>
   \<and> fst (afterEach r fn) = r\<lparr>afterHooks := afterHooks r @ [Some fn]\<rparr>
   \<and> snd (beforeEach r fn) r' = r'\<lparr>beforeHooks := remove1 (Some fn) (beforeHooks r')\<rparr>
   \<and> snd (beforeResolve r fn) r' = r'\<lparr>resolveHooks := remove1 (Some fn) (resolveHooks r')\<rparr>
   \<and> snd (afterEach r fn) r' = r'\<lparr>afterHooks := remove1 (Some fn) (afterHooks r')\<rparr>
   \<and> (Some fn \<in> set (hooks l r') \<longrightarrow>
        (\<exists>pre post. hooks l r' = pre @ Some fn # post \<and> Some fn \<notin> set pre
           \<and> hooks l (snd (register l r fn) r') = pre @ post))
   \<and> (Some fn \<notin> set (hooks l r') \<longrightarrow> snd (register l r fn) r' = r')
   \<and> (Some fn \<in> set (hooks l (snd (register l r fn) r'))
        \<longleftrightarrow> 1 < count_list (hooks l r') (Some fn))
   \<and> hooks l (router (register_hook h l fn)) = hooks l (router h) @ [Some fn]
   \<and> hooks l (router (unregister_hook h l fn)) = remove1 (Some fn) (hooks l (router h))"
proof -
  have 7: "Some fn \<in> set (hooks l r') \<longrightarrow>
        (\<exists>pre post. hooks l r' = pre @ Some fn # post \<and> Some fn \<notin> set pre
           \<and> hooks l (snd (register l r fn) r') = pre @ post)"
    using remove1_first_occurrence [of "Some fn" "hooks l r'"] by (simp add: hooks_register)
  have 8: "Some fn \<notin> set (hooks l r') \<longrightarrow> snd (register l r fn) r' = r'"
    by (simp add: register_absent)
  have 9: "Some fn \<in> set (hooks l (snd (register l r fn) r'))
        \<longleftrightarrow> 1 < count_list (hooks l r') (Some fn)"
    by (simp add: hooks_register remove1_still_there)
  have 10: "hooks l (router (register_hook h l fn)) = hooks l (router h) @ [Some fn]"
    by (simp add: register_hook_def hooks_register)
  have 11: "hooks l (router (unregister_hook h l fn)) = remove1 (Some fn) (hooks l (router h))"
    by (simp add: unregister_hook_def hooks_register)
  show ?thesis
    by (intro conjI) (rule register_fst register_snd 7 8 9 10 11)+
qed

section \<open>Properties of the route table builder\<close>

lemma grows_refl: "grows t t"
  by (simp add: grows_def)

lemma grows_trans:
  assumes "grows t t'" and "grows t' t''"
  shows "grows t t''"
proof -
  from assms(1) obtain ys where ys:
    "pathMap t \<subseteq>\<^sub>m pathMap t'" "nameMap t \<subseteq>\<^sub>m nameMap t'"
    "pathList t' = pathList t @ ys" "distinct ys" "set ys \<inter> dom (pathMap t) = {}"
    "dom (pathMap t') = dom (pathMap t) \<union> set ys"
    "\<forall>p r. p \<in> set ys \<longrightarrow> pathMap t' p = Some r \<longrightarrow> rec_path r = p"
    unfolding grows_def by blast
  from assms(2) obtain zs where zs:
    "pathMap t' \<subseteq>\<^sub>m pathMap t''" "nameMap t' \<subseteq>\<^sub>m nameMap t''"
    "pathList t'' = pathList t' @ zs" "distinct zs" "set zs \<inter> dom (pathMap t') = {}"
    "dom (pathMap t'') = dom (pathMap t') \<union> set zs"
    "\<forall>p r. p \<in> set zs \<longrightarrow> pathMap t'' p = Some r \<longrightarrow> rec_path r = p"
    unfolding grows_def by blast
  have m: "pathMap t \<subseteq>\<^sub>m pathMap t''" "nameMap t \<subseteq>\<^sub>m nameMap t''"
    using ys(1,2) zs(1,2) by (blast intro: map_le_trans)+
  have l: "pathList t'' = pathList t @ (ys @ zs)"
    using ys(3) zs(3) by simp
  have d: "distinct (ys @ zs)"
    using ys(4,6) zs(4,5) by auto
  have i: "set (ys @ zs) \<inter> dom (pathMap t) = {}"
    using ys(5,6) zs(5) by auto
  have dm: "dom (pathMap t'') = dom (pathMap t) \<union> set (ys @ zs)"
    using ys(6) zs(6) by auto
  have own: "\<forall>p r. p \<in> set (ys @ zs) \<longrightarrow> pathMap t'' p = Some r \<longrightarrow> rec_path r = p"
  proof (intro allI impI)
    fix p r
    assume p: "p \<in> set (ys @ zs)" and r: "pathMap t'' p = Some r"
    show "rec_path r = p"
    proof (cases "p \<in> set zs")
      case True
      with zs(7) r show ?thesis by blast
    next
      case False
      with p have py: "p \<in> set ys" by simp
      with ys(6) have "p \<in> dom (pathMap t')" by blast
      with zs(1) r have "pathMap t' p = Some r" by (auto simp: map_le_def dom_def)
      with ys(7) py show ?thesis by blast
    qed
  qed
  show ?thesis
    unfolding grows_def using m l d i dm own by blast
qed

lemma grows_fold:
  assumes "\<And>x t. x \<in> set xs \<Longrightarrow> grows t (f x t)"
  shows "grows t (fold f xs t)"
  using assms
proof (induction xs arbitrary: t)
  case Nil
  show ?case by (simp add: grows_refl)
next
  case (Cons x xs)
  have "grows t (f x t)" by (rule Cons.prems) simp
  moreover have "grows (f x t) (fold f xs (f x t))"
    by (rule Cons.IH) (simp add: Cons.prems)
  ultimately show ?case by (auto intro: grows_trans)
qed

text \<open>The two registrations of \<^verbatim>\<open>addRouteRecord\<close>: under the path, and under the name.\<close>

lemma grows_register_path:
  "grows t (if pathMap t (rec_path r) = None
            then t\<lparr>pathList := pathList t @ [rec_path r], pathMap := (pathMap t)(rec_path r \<mapsto> r)\<rparr>
            else t)"
  by (auto simp: grows_def map_le_def dom_def)

lemma grows_register_name:
  "grows t (if truthy n \<and> nameMap t (the n) = None
            then t\<lparr>nameMap := (nameMap t)(the n \<mapsto> r)\<rparr> else t)"
  by (auto simp: grows_def map_le_def dom_def)

lemma grows_addRouteRecord: "grows tbl (addRouteRecord env tbl route parent matchAs)"
proof (induction env tbl route parent matchAs rule: addRouteRecord.induct)
  case (1 env tbl route parent matchAs)
  define opts0 where "opts0 =
    (case cfg_pathToRegexpOptions route of
       None \<Rightarrow> \<lparr>opt_strict = None, opt_sensitive = None\<rparr> | Some opts \<Rightarrow> opts)"
  define np where "np = normalizePath env (cfg_path route) parent (opt_strict opts0)"
  define opts where "opts =
    (case cfg_caseSensitive route of None \<Rightarrow> opts0 | Some b \<Rightarrow> opts0\<lparr>opt_sensitive := Some b\<rparr>)"
  define rcd where "rcd = RouteRecord np (compileRouteRegex env np opts)
    (case cfg_components route of None \<Rightarrow> [(''default'', cfg_component route)] | Some cs \<Rightarrow> cs)
    [] (cfg_name route) parent matchAs (cfg_redirect route) (cfg_beforeEnter route)
    (case cfg_meta route of None \<Rightarrow> [] | Some m \<Rightarrow> m)"
  define t1 where "t1 =
    (case cfg_children route of
       None \<Rightarrow> tbl
     | Some children \<Rightarrow>
         fold (\<lambda>child t. addRouteRecord env t child (Some rcd)
                 (if truthy matchAs then Some (cleanPath env (the matchAs @ ''/'' @ cfg_path child))
                  else None))
              children tbl)"
  define t2 where "t2 =
    (if pathMap t1 (rec_path rcd) = None
     then t1\<lparr>pathList := pathList t1 @ [rec_path rcd],
              pathMap := (pathMap t1)(rec_path rcd \<mapsto> rcd)\<rparr>
     else t1)"
  define t3 where "t3 =
    (case cfg_alias route of
       None \<Rightarrow> t2
     | Some a \<Rightarrow>
         fold (\<lambda>alias t. if dev env \<and> alias = cfg_path route then t
                 else addRouteRecord env t (aliasRoute alias (cfg_children route)) parent
                        (Some (if rec_path rcd = [] then ''/'' else rec_path rcd)))
              (alias_list a) t2)"
  define t4 where "t4 =
    (if truthy (cfg_name route) \<and> nameMap t3 (the (cfg_name route)) = None
     then t3\<lparr>nameMap := (nameMap t3)(the (cfg_name route) \<mapsto> rcd)\<rparr> else t3)"
  have res: "addRouteRecord env tbl route parent matchAs = t4"
    by (subst addRouteRecord.simps)
       (simp only: Let_def opts0_def np_def opts_def rcd_def t1_def t2_def t3_def t4_def)
  have g1: "grows tbl t1"
  proof (cases "cfg_children route")
    case None
    then show ?thesis by (simp add: t1_def grows_refl)
  next
    case (Some children)
    have "grows tbl (fold (\<lambda>child t. addRouteRecord env t child (Some rcd)
                 (if truthy matchAs then Some (cleanPath env (the matchAs @ ''/'' @ cfg_path child))
                  else None)) children tbl)"
      by (rule grows_fold)
         (rule "1.IH"(1) [OF opts0_def np_def opts_def rcd_def Some])
    with Some show ?thesis by (simp add: t1_def)
  qed
  have g2: "grows t1 t2"
    unfolding t2_def by (rule grows_register_path)
  have g3: "grows t2 t3"
  proof (cases "cfg_alias route")
    case None
    then show ?thesis by (simp add: t3_def grows_refl)
  next
    case (Some a)
    have "grows t2 (fold (\<lambda>alias t. if dev env \<and> alias = cfg_path route then t
                 else addRouteRecord env t (aliasRoute alias (cfg_children route)) parent
                        (Some (if rec_path rcd = [] then ''/'' else rec_path rcd)))
              (alias_list a) t2)"
    proof (rule grows_fold)
      fix x t
      assume x: "x \<in> set (alias_list a)"
      show "grows t (if dev env \<and> x = cfg_path route then t
                 else addRouteRecord env t (aliasRoute x (cfg_children route)) parent
                        (Some (if rec_path rcd = [] then ''/'' else rec_path rcd)))"
      proof (cases "dev env \<and> x = cfg_path route")
        case True
        then show ?thesis by (simp add: grows_refl)
      next
        case False
        have "grows t (addRouteRecord env t (aliasRoute x (cfg_children route)) parent
                        (Some (if rec_path rcd = [] then ''/'' else rec_path rcd)))"
          by (rule "1.IH"(2) [OF opts0_def np_def opts_def rcd_def t1_def t2_def Some x False])
        with False show ?thesis by (simp add: grows_refl)
      qed
    qed
    with Some show ?thesis by (simp add: t3_def)
  qed
  have g4: "grows t3 t4"
    unfolding t4_def by (rule grows_register_name)
  show ?case
    unfolding res using g1 g2 g3 g4 by (blast intro: grows_trans)
qed

lemma grows_addRouteRecords: "grows tbl (addRouteRecords env routes tbl)"
  unfolding addRouteRecords_def by (rule grows_fold) (rule grows_addRouteRecord)

lemma grows_table_inv:
  assumes "grows t t'" and "table_inv t"
  shows "table_inv t'"
proof -
  from assms(1) obtain ys where ys:
    "pathMap t \<subseteq>\<^sub>m pathMap t'"
    "pathList t' = pathList t @ ys" "distinct ys" "set ys \<inter> dom (pathMap t) = {}"
    "dom (pathMap t') = dom (pathMap t) \<union> set ys"
    "\<forall>p r. p \<in> set ys \<longrightarrow> pathMap t' p = Some r \<longrightarrow> rec_path r = p"
    unfolding grows_def by blast
  from assms(2) have inv: "distinct (pathList t)" "set (pathList t) = dom (pathMap t)"
    "\<forall>p r. pathMap t p = Some r \<longrightarrow> rec_path r = p"
    unfolding table_inv_def by blast+
  have "distinct (pathList t')" using ys(2,3,4) inv(1,2) by auto
  moreover have "set (pathList t') = dom (pathMap t')" using ys(2,5) inv(2) by auto
  moreover have "\<forall>p r. pathMap t' p = Some r \<longrightarrow> rec_path r = p"
  proof (intro allI impI)
    fix p r
    assume r: "pathMap t' p = Some r"
    show "rec_path r = p"
    proof (cases "p \<in> set ys")
      case True
      with ys(6) r show ?thesis by blast
    next
      case False
      with r ys(5) have "p \<in> dom (pathMap t)" by auto
      with ys(1) r have "pathMap t p = Some r" by (auto simp: map_le_def dom_def)
      with inv(3) show ?thesis by blast
    qed
  qed
  ultimately show ?thesis unfolding table_inv_def by blast
qed

lemma table_inv_empty: "table_inv empty_RouteMap"
  by (simp add: table_inv_def empty_RouteMap_def)

section \<open>Properties of the wildcard loop\<close>

lemma wildcard_loop_partition:
  "wildcard_loop (length P) (length P + length M) (P @ M @ S)
     = P @ filter (\<lambda>p. p \<noteq> ''*'') M @ S @ filter (\<lambda>p. p = ''*'') M"
proof (induction M arbitrary: P S)
  case Nil
  show ?case by (subst wildcard_loop.simps) simp
next
  case (Cons m M)
  show ?case
  proof (cases "m = ''*''")
    case True
    have "wildcard_loop (length P) (length P + length (m # M)) (P @ (m # M) @ S)
        = wildcard_loop (length P) (length P + length M) (P @ M @ (S @ [m]))"
      using True by (subst wildcard_loop.simps) (simp add: splice1_def nth_append)
    also have "\<dots> = P @ filter (\<lambda>p. p \<noteq> ''*'') M @ (S @ [m]) @ filter (\<lambda>p. p = ''*'') M"
      by (rule Cons.IH)
    finally show ?thesis using True by simp
  next
    case False
    have "wildcard_loop (length P) (length P + length (m # M)) (P @ (m # M) @ S)
        = wildcard_loop (length (P @ [m])) (length (P @ [m]) + length M) ((P @ [m]) @ M @ S)"
      using False by (subst wildcard_loop.simps) (simp add: nth_append)
    also have "\<dots> = (P @ [m]) @ filter (\<lambda>p. p \<noteq> ''*'') M @ S @ filter (\<lambda>p. p = ''*'') M"
      by (rule Cons.IH)
    finally show ?thesis using False by simp
  qed
qed

lemma ensure_wildcard_last_eq:
  "ensure_wildcard_last xs = filter (\<lambda>p. p \<noteq> ''*'') xs @ filter (\<lambda>p. p = ''*'') xs"
  using wildcard_loop_partition [of "[]" xs "[]"] by (simp add: ensure_wildcard_last_def)


section \<open>Properties of the path scan\<close>

lemma matchRoute_False:
  "matchRoute env rg path ps = Inr (False, ps') \<Longrightarrow> ps' = ps \<and> str_match env path rg = None"
  by (auto simp: matchRoute_def split: option.splits sum.splits)

lemma matchRoute_True:
  "matchRoute env rg path ps = Inr (True, ps') \<Longrightarrow> str_match env path rg \<noteq> None"
  by (auto simp: matchRoute_def split: option.splits sum.splits)

lemma matchRoute_no_match:
  "str_match env path rg = None \<Longrightarrow> matchRoute env rg path ps = Inr (False, ps)"
  by (simp add: matchRoute_def)

lemma scan_pathList_skip:
  "\<forall>p \<in> set xs. no_match env pm path p
     \<Longrightarrow> scan_pathList env pm path (xs @ ys) ps = scan_pathList env pm path ys ps"
  by (induction xs) (auto simp: no_match_def matchRoute_no_match split: option.splits)

lemma scan_pathList_found:
  "scan_pathList env pm path xs ps = Inr (Some (r, ps'))
     \<Longrightarrow> \<exists>pre p post. xs = pre @ p # post \<and> pm p = Some r
           \<and> (\<forall>q \<in> set pre. no_match env pm path q)
           \<and> str_match env path (rec_regex r) \<noteq> None"
proof (induction xs)
  case Nil
  then show ?case by simp
next
  case (Cons x xs)
  from Cons.prems obtain rx where rx: "pm x = Some rx"
    by (auto split: option.splits)
  from Cons.prems rx obtain b px where m: "matchRoute env (rec_regex rx) path ps = Inr (b, px)"
    by (auto split: sum.splits)
  show ?case
  proof (cases b)
    case True
    with Cons.prems rx m have "r = rx" by simp
    moreover from True m have "str_match env path (rec_regex rx) \<noteq> None"
      by (auto dest: matchRoute_True)
    ultimately show ?thesis
      using rx by (intro exI [of _ "[]"] exI [of _ x] exI [of _ xs]) simp
  next
    case False
    with m have px: "px = ps" and nm: "str_match env path (rec_regex rx) = None"
      by (auto dest: matchRoute_False)
    with Cons.prems rx m False have "scan_pathList env pm path xs ps = Inr (Some (r, ps'))"
      by simp
    from Cons.IH [OF this] obtain pre p post where
      "xs = pre @ p # post" "pm p = Some r" "\<forall>q \<in> set pre. no_match env pm path q"
      "str_match env path (rec_regex r) \<noteq> None" by blast
    then show ?thesis
      using rx nm
      by (intro exI [of _ "x # pre"] exI [of _ p] exI [of _ post]) (simp add: no_match_def)
  qed
qed

lemma scan_pathList_none:
  "scan_pathList env pm path xs ps = Inr None \<Longrightarrow> \<forall>q \<in> set xs. no_match env pm path q"
proof (induction xs)
  case Nil
  then show ?case by simp
next
  case (Cons x xs)
  from Cons.prems obtain rx where rx: "pm x = Some rx"
    by (auto split: option.splits)
  from Cons.prems rx obtain b px where m: "matchRoute env (rec_regex rx) path ps = Inr (b, px)"
    by (auto split: sum.splits)
  from Cons.prems rx m have b: "\<not> b" by (cases b) auto
  with m have px: "px = ps" and nm: "str_match env path (rec_regex rx) = None"
    by (auto dest: matchRoute_False)
  with Cons.prems rx m b have "scan_pathList env pm path xs ps = Inr None" by simp
  from Cons.IH [OF this] show ?case using rx nm by (simp add: no_match_def)
qed

text \<open>A list with the wildcards last: what stands before a wildcard holds every other path.\<close>

lemma before_wildcard:
  assumes "pre @ ''*'' # post = filter (\<lambda>p. p \<noteq> ''*'') L @ filter (\<lambda>p. p = ''*'') L"
    and "q \<in> set L" and "q \<noteq> ''*''"
  shows "q \<in> set pre"
proof -
  let ?N = "filter (\<lambda>p. p \<noteq> ''*'') L" and ?W = "filter (\<lambda>p. p = ''*'') L"
  from assms(1) obtain us where
    "(pre = ?N @ us \<and> us @ ''*'' # post = ?W) \<or> (pre @ us = ?N \<and> ''*'' # post = us @ ?W)"
    by (auto simp: append_eq_append_conv2)
  then have "\<exists>vs. pre = ?N @ vs"
  proof
    assume "pre = ?N @ us \<and> us @ ''*'' # post = ?W"
    then show ?thesis by blast
  next
    assume a: "pre @ us = ?N \<and> ''*'' # post = us @ ?W"
    show ?thesis
    proof (cases us)
      case Nil
      with a show ?thesis by simp
    next
      case (Cons u us')
      with a have "u = ''*''" by simp
      moreover from a Cons have "u \<in> set ?N" by (metis in_set_conv_decomp)
      ultimately show ?thesis by simp
    qed
  qed
  then obtain vs where "pre = ?N @ vs" by blast
  with assms(2,3) show ?thesis by simp
qed

section \<open>Evaluating the builder on a configuration without children\<close>

lemma addRouteRecord_no_children:
  "cfg_children route = None \<Longrightarrow>
   addRouteRecord env tbl route parent matchAs =
     (let pathToRegexpOptions =
            (case cfg_pathToRegexpOptions route of
               None \<Rightarrow> \<lparr>opt_strict = None, opt_sensitive = None\<rparr>
             | Some opts \<Rightarrow> opts);
          normalizedPath = normalizePath env (cfg_path route) parent (opt_strict pathToRegexpOptions);
          pathToRegexpOptions =
            (case cfg_caseSensitive route of
               None \<Rightarrow> pathToRegexpOptions
             | Some b \<Rightarrow> pathToRegexpOptions\<lparr>opt_sensitive := Some b\<rparr>);
          record = RouteRecord
            normalizedPath
            (compileRouteRegex env normalizedPath pathToRegexpOptions)
            (case cfg_components route of
               None \<Rightarrow> [(''default'', cfg_component route)]
             | Some cs \<Rightarrow> cs)
            []
            (cfg_name route)
            parent
            matchAs
            (cfg_redirect route)
            (cfg_beforeEnter route)
            (case cfg_meta route of None \<Rightarrow> [] | Some m \<Rightarrow> m);
          tbl = (if pathMap tbl (rec_path record) = None
                 then tbl\<lparr>pathList := pathList tbl @ [rec_path record],
                          pathMap := (pathMap tbl)(rec_path record \<mapsto> record)\<rparr>
                 else tbl);
          tbl = (case cfg_alias route of
                   None \<Rightarrow> tbl
                 | Some a \<Rightarrow>
                     fold (\<lambda>alias t.
                             if dev env \<and> alias = cfg_path route then t
                             else addRouteRecord env t (aliasRoute alias None) parent
                                    (Some (if rec_path record = [] then ''/'' else rec_path record)))
                          (alias_list a) tbl)
      in if truthy (cfg_name route) \<and> nameMap tbl (the (cfg_name route)) = None
         then tbl\<lparr>nameMap := (nameMap tbl)(the (cfg_name route) \<mapsto> record)\<rparr>
         else tbl)"
  by (subst addRouteRecord.simps) (simp only: option.case Let_def)

lemma ex_env_fields:
  "dev ex_env = True" "assert ex_env = (\<lambda>condition. if condition then None else Some AssertionFailed)"
  "Regexp ex_env = ex_Regexp" "str_match ex_env = ex_str_match"
  "decodeURIComponent ex_env = ex_decodeURIComponent" "cleanPath ex_env = ex_cleanPath"
  "resolvePath ex_env = ex_resolvePath" "fillParams ex_env = ex_fillParams"
  "normalizeLocation ex_env = ex_normalizeLocation" "getFullPath ex_env = ex_getFullPath"
  "redirect_fn ex_env = (\<lambda>f route. RVOther)"
  by (simp_all add: ex_env_def)

lemmas ex_simps = ex_env_fields ex_Regexp_def ex_str_match_def ex_decodeURIComponent_def
  ex_resolvePath_def ex_fillParams_def ex_normalizeLocation_def ex_getFullPath_def
  route_cfg_def is_param_def ex_record_def ex_location_def

lemma addRouteRecords_simps:
  "addRouteRecords env [] tbl = tbl"
  "addRouteRecords env (route # routes) tbl =
     addRouteRecords env routes (addRouteRecord env tbl route None None)"
  by (simp_all add: addRouteRecords_def)

lemmas build_simps = createRouteMap_def addRouteRecords_simps addRouteRecord_no_children Let_def
  empty_RouteMap_def normalizePath_def compileRouteRegex_def truthy_def aliasRoute_def
  alias_list_def ensure_wildcard_last_eq createMatcher_def addRoutes_def

section \<open>Wildcard priority\<close>

lemma createRouteMap_unfold:
  "createRouteMap env routes old =
     (addRouteRecords env routes (case old of None \<Rightarrow> empty_RouteMap | Some t \<Rightarrow> t))
       \<lparr>pathList := ensure_wildcard_last
          (pathList (addRouteRecords env routes
             (case old of None \<Rightarrow> empty_RouteMap | Some t \<Rightarrow> t)))\<rparr>"
  by (simp add: createRouteMap_def Let_def)

lemma createRouteMap_table_inv:
  assumes "case old of None \<Rightarrow> True | Some t \<Rightarrow> table_inv t"
  shows "table_inv (createRouteMap env routes old)"
proof -
  let ?t0 = "case old of None \<Rightarrow> empty_RouteMap | Some t \<Rightarrow> t"
  have "table_inv ?t0" using assms by (auto simp: table_inv_empty split: option.splits)
  then have "table_inv (addRouteRecords env routes ?t0)"
    using grows_addRouteRecords grows_table_inv by blast
  then show ?thesis
    unfolding createRouteMap_unfold
    by (auto simp: table_inv_def ensure_wildcard_last_eq)
qed


lemma wildcards_last_nth:
  assumes "R = filter (\<lambda>p. p \<noteq> ''*'') L @ filter (\<lambda>p. p = ''*'') L"
    and "i < length R" and "j < length R" and "R ! i = ''*''" and "R ! j \<noteq> ''*''"
  shows "j < i"
proof -
  let ?N = "filter (\<lambda>p. p \<noteq> ''*'') L" and ?W = "filter (\<lambda>p. p = ''*'') L"
  have i: "\<not> i < length ?N"
  proof
    assume a: "i < length ?N"
    then have "?N ! i \<in> set ?N" by (rule nth_mem)
    moreover from a assms(1) have "R ! i = ?N ! i" by (simp add: nth_append)
    ultimately show False using assms(4) by simp
  qed
  have j: "j < length ?N"
  proof (rule ccontr)
    assume n: "\<not> j < length ?N"
    with assms(1,3) have "j - length ?N < length ?W" by simp
    then have "?W ! (j - length ?N) \<in> set ?W" by (rule nth_mem)
    moreover from n assms(1) have "R ! j = ?W ! (j - length ?N)" by (simp add: nth_append)
    ultimately show False using assms(5) by simp
  qed
  from i j show ?thesis by simp
qed

text \<open>
  C4. When \<^verbatim>\<open>createRouteMap\<close> has processed the configurations (on an empty table or on
  a table built before), the path list is the list of the registered paths with every
  \<^verbatim>\<open>*\<close> moved behind every other path, the order among the other paths and among the
  wildcards kept. So whenever the path scan of \<^verbatim>\<open>match\<close> ends on the wildcard record, the
  pattern of every other path of the list does not match the location, whatever the order
  of registration was.
\<close>

theorem createRouteMap_wildcard_last:
  assumes "case old of None \<Rightarrow> True | Some t \<Rightarrow> table_inv t"
  shows
    "(let L = pathList (addRouteRecords env routes
                (case old of None \<Rightarrow> empty_RouteMap | Some t \<Rightarrow> t));
          tbl = createRouteMap env routes old;
          location = normalizeLocation env raw currentRoute False
      in pathList tbl = filter (\<lambda>p. p \<noteq> ''*'') L @ filter (\<lambda>p. p = ''*'') L
         \<and> (\<forall>i j. i < length (pathList tbl) \<longrightarrow> j < length (pathList tbl)
                \<longrightarrow> pathList tbl ! i = ''*'' \<longrightarrow> pathList tbl ! j \<noteq> ''*'' \<longrightarrow> j < i)
         \<and> (\<forall>r location' rf.
               \<not> truthy (loc_name location)
               \<longrightarrow> match_lookup env tbl raw currentRoute redirectedFrom = Inr (Some r, location', rf)
               \<longrightarrow> rec_path r = ''*''
               \<longrightarrow> (\<forall>p \<in> set (pathList tbl). p \<noteq> ''*''
                      \<longrightarrow> no_match env (pathMap tbl) (the (loc_path location)) p)))"
proof -
  define L where "L = pathList (addRouteRecords env routes
                (case old of None \<Rightarrow> empty_RouteMap | Some t \<Rightarrow> t))"
  define tbl where "tbl = createRouteMap env routes old"
  define location where "location = normalizeLocation env raw currentRoute False"
  have pl: "pathList tbl = filter (\<lambda>p. p \<noteq> ''*'') L @ filter (\<lambda>p. p = ''*'') L"
    by (simp add: tbl_def L_def createRouteMap_unfold ensure_wildcard_last_eq)
  have inv: "table_inv tbl"
    unfolding tbl_def using assms by (rule createRouteMap_table_inv)
  have idx: "\<forall>i j. i < length (pathList tbl) \<longrightarrow> j < length (pathList tbl)
                \<longrightarrow> pathList tbl ! i = ''*'' \<longrightarrow> pathList tbl ! j \<noteq> ''*'' \<longrightarrow> j < i"
    using wildcards_last_nth [OF pl] by blast
  have scan: "\<forall>p \<in> set (pathList tbl). p \<noteq> ''*''
                      \<longrightarrow> no_match env (pathMap tbl) (the (loc_path location)) p"
    if nn: "\<not> truthy (loc_name location)"
      and ml: "match_lookup env tbl raw currentRoute redirectedFrom = Inr (Some r, location', rf)"
      and star: "rec_path r = ''*''"
    for r location' rf
  proof -
    from nn ml obtain ps' where
      sc: "scan_pathList env (pathMap tbl) (the (loc_path location)) (pathList tbl) (Some [])
             = Inr (Some (r, ps'))"
      unfolding match_lookup_def location_def [symmetric] Let_def
      by (auto split: if_splits sum.splits option.splits)
    from scan_pathList_found [OF sc] obtain pre p post where f:
      "pathList tbl = pre @ p # post" "pathMap tbl p = Some r"
      "\<forall>q \<in> set pre. no_match env (pathMap tbl) (the (loc_path location)) q" by blast
    from inv f(2) star have "p = ''*''" by (auto simp: table_inv_def)
    with f(1) pl have eq: "pre @ ''*'' # post = filter (\<lambda>p. p \<noteq> ''*'') L @ filter (\<lambda>p. p = ''*'') L"
      by simp
    show ?thesis
    proof (intro ballI impI)
      fix q
      assume q: "q \<in> set (pathList tbl)" "q \<noteq> ''*''"
      then have "q \<in> set L" using pl by auto
      from before_wildcard [OF eq this q(2)] f(3)
      show "no_match env (pathMap tbl) (the (loc_path location)) q" by blast
    qed
  qed
  show ?thesis
    unfolding Let_def L_def [symmetric] tbl_def [symmetric] location_def [symmetric]
    using pl idx scan by blast
qed


theorem createRouteMap_wildcard_last_witness:
  "pathList (createRouteMap ex_env
      [route_cfg ''*'' None None None, route_cfg ''/a'' None None None] None)
     = [''/a'', ''*'']
   \<and> match_lookup ex_env
        (createRouteMap ex_env [route_cfg ''*'' None None None, route_cfg ''/a'' None None None] None)
        (RawString ''/b'') None None
      = Inr (Some (ex_record ''*'' None None None),
             (ex_location ''/b'')\<lparr>loc_params := Some [(''pathMatch'', Some ''/b'')]\<rparr>, None)
   \<and> no_match ex_env
        (pathMap (createRouteMap ex_env
           [route_cfg ''*'' None None None, route_cfg ''/a'' None None None] None))
        ''/b'' ''/a''"
proof -
  let ?routes = "[route_cfg ''*'' None None None, route_cfg ''/a'' None None None]"
  have tbl: "createRouteMap ex_env ?routes None =
      \<lparr>pathList = [''/a'', ''*''],
       pathMap = [''*'' \<mapsto> ex_record ''*'' None None None, ''/a'' \<mapsto> ex_record ''/a'' None None None],
       nameMap = Map.empty\<rparr>"
    by (simp add: build_simps ex_simps)
  have ml: "match_lookup ex_env (createRouteMap ex_env ?routes None) (RawString ''/b'') None None
      = Inr (Some (ex_record ''*'' None None None),
             (ex_location ''/b'')\<lparr>loc_params := Some [(''pathMatch'', Some ''/b'')]\<rparr>, None)"
    unfolding tbl
    by (simp add: match_lookup_def matchRoute_def param_key_def ex_simps Let_def truthy_def)
  have nm: "normalizeLocation ex_env (RawString ''/b'') None False = ex_location ''/b''"
    by (simp add: ex_simps)
  have h: "case None of None \<Rightarrow> True | Some t \<Rightarrow> table_inv t" by simp
  note T = createRouteMap_wildcard_last [OF h, of ex_env ?routes "RawString ''/b''" None None,
      unfolded Let_def, THEN conjunct2, THEN conjunct2, rule_format, OF _ ml]
  have "no_match ex_env (pathMap (createRouteMap ex_env ?routes None))
          (the (loc_path (normalizeLocation ex_env (RawString ''/b'') None False))) ''/a''"
    by (rule T) (simp_all add: tbl nm truthy_def ex_record_def ex_location_def)
  then have "no_match ex_env (pathMap (createRouteMap ex_env ?routes None)) ''/b'' ''/a''"
    by (simp add: nm ex_location_def)
  with ml tbl show ?thesis by simp
qed


section \<open>Additive registration\<close>

lemma scan_pathList_append:
  "scan_pathList env pm path (xs @ ys) ps =
     (case scan_pathList env pm path xs ps of
        Inr None \<Rightarrow> scan_pathList env pm path ys ps
      | res \<Rightarrow> res)"
proof (induction xs)
  case Nil
  show ?case by simp
next
  case (Cons x xs)
  show ?case
  proof (cases "pm x")
    case None
    then show ?thesis by simp
  next
    case (Some rx)
    show ?thesis
    proof (cases "matchRoute env (rec_regex rx) path ps")
      case (Inl e)
      with Some show ?thesis by simp
    next
      case (Inr bp)
      obtain b px where bp: "bp = (b, px)" by (cases bp)
      show ?thesis
      proof (cases b)
        case True
        with Some Inr bp show ?thesis by simp
      next
        case False
        with Inr bp have "px = ps" by (auto dest: matchRoute_False)
        with Some Inr bp False Cons.IH show ?thesis by simp
      qed
    qed
  qed
qed

lemma scan_pathList_all_no_match:
  "\<forall>p \<in> set xs. no_match env pm path p \<Longrightarrow> scan_pathList env pm path xs ps = Inr None"
  using scan_pathList_skip [of xs env pm path "[]" ps] by simp

lemma scan_pathList_cong:
  "\<forall>p \<in> set xs. pm p = pm' p \<Longrightarrow> scan_pathList env pm path xs ps = scan_pathList env pm' path xs ps"
proof (induction xs)
  case Nil
  show ?case by simp
next
  case (Cons x xs)
  then have "pm x = pm' x" and "scan_pathList env pm path xs ps = scan_pathList env pm' path xs ps"
    by simp_all
  moreover have "\<And>b px. matchRoute env rg path ps = Inr (b, px) \<Longrightarrow> \<not> b \<Longrightarrow> px = ps" for rg
    by (auto dest: matchRoute_False)
  ultimately show ?case
    by (auto split: option.splits sum.splits bool.splits)
qed

lemma ensure_wildcard_last_idem:
  "ensure_wildcard_last (ensure_wildcard_last xs) = ensure_wildcard_last xs"
  by (simp add: ensure_wildcard_last_eq)

lemma createRouteMap_built:
  assumes "case old of None \<Rightarrow> True | Some t \<Rightarrow> table_inv t"
  shows "built (createRouteMap env routes old)"
  unfolding built_def
  using createRouteMap_table_inv [OF assms]
  by (simp add: createRouteMap_unfold ensure_wildcard_last_idem)

lemma grows_keeps:
  assumes "grows t t'"
  shows "pathMap t p = Some r \<Longrightarrow> pathMap t' p = Some r"
    and "nameMap t n = Some r \<Longrightarrow> nameMap t' n = Some r"
    and "pathMap t p = Some r \<Longrightarrow> count_list (pathList t') p = count_list (pathList t) p"
proof -
  from assms obtain ys where ys:
    "pathMap t \<subseteq>\<^sub>m pathMap t'" "nameMap t \<subseteq>\<^sub>m nameMap t'"
    "pathList t' = pathList t @ ys" "set ys \<inter> dom (pathMap t) = {}"
    unfolding grows_def by blast
  show "pathMap t p = Some r \<Longrightarrow> pathMap t' p = Some r"
    using ys(1) by (auto simp: map_le_def dom_def)
  show "nameMap t n = Some r \<Longrightarrow> nameMap t' n = Some r"
    using ys(2) by (auto simp: map_le_def dom_def)
  show "pathMap t p = Some r \<Longrightarrow> count_list (pathList t') p = count_list (pathList t) p"
  proof -
    assume "pathMap t p = Some r"
    then have "p \<notin> set ys" using ys(4) by auto
    then have "count_list ys p = 0" by (simp add: count_list_0_iff)
    with ys(3) show ?thesis by simp
  qed
qed

lemma count_list_partition:
  "count_list (filter P xs @ filter (\<lambda>x. \<not> P x) xs) p = count_list xs p"
  by (induction xs) auto

lemma count_list_ensure_wildcard_last:
  "count_list (ensure_wildcard_last xs) p = count_list xs p"
  using count_list_partition [of "\<lambda>p. p \<noteq> ''*''" xs p]
  by (simp add: ensure_wildcard_last_eq)

text \<open>
  The scan after an addition: on a table with the wildcard last, the paths that are new do
  not change what the scan selects as long as none of their patterns matches.
\<close>

lemma scan_after_addition:
  assumes g: "grows t t0" and b: "built t"
    and new: "\<forall>p \<in> set (pathList t0) - set (pathList t). no_match env (pathMap t0) path p"
  shows "scan_pathList env (pathMap t0) path (ensure_wildcard_last (pathList t0)) ps
       = scan_pathList env (pathMap t) path (pathList t) ps"
proof -
  let ?N = "\<lambda>xs. filter (\<lambda>p. p \<noteq> ''*'') xs" and ?W = "\<lambda>xs. filter (\<lambda>p. p = ''*'') xs"
  from g obtain ys where ys:
    "pathMap t \<subseteq>\<^sub>m pathMap t0" "pathList t0 = pathList t @ ys"
    "set ys \<inter> dom (pathMap t) = {}"
    unfolding grows_def by blast
  from b have inv: "set (pathList t) = dom (pathMap t)"
    and wl: "pathList t = ?N (pathList t) @ ?W (pathList t)"
    by (auto simp: built_def table_inv_def ensure_wildcard_last_eq)
  have agree: "\<forall>p \<in> set (pathList t). pathMap t0 p = pathMap t p"
    using ys(1) inv by (auto simp: map_le_def)
  have "set ys \<subseteq> set (pathList t0) - set (pathList t)"
    using ys(2,3) inv by auto
  with new have nys: "\<forall>p \<in> set ys. no_match env (pathMap t0) path p" by blast
  then have n1: "scan_pathList env (pathMap t0) path (?N ys) ps = Inr None"
    and n2: "scan_pathList env (pathMap t0) path (?W ys) ps = Inr None"
    by (auto intro!: scan_pathList_all_no_match)
  have "scan_pathList env (pathMap t0) path (ensure_wildcard_last (pathList t0)) ps
      = scan_pathList env (pathMap t0) path
          (?N (pathList t) @ ?N ys @ ?W (pathList t) @ ?W ys) ps"
    by (simp add: ensure_wildcard_last_eq ys(2))
  also have "\<dots> = scan_pathList env (pathMap t0) path (?N (pathList t) @ ?W (pathList t)) ps"
    by (simp add: scan_pathList_append n1 n2 split: sum.splits option.splits)
  also have "\<dots> = scan_pathList env (pathMap t0) path (pathList t) ps"
    using wl by simp
  also have "\<dots> = scan_pathList env (pathMap t) path (pathList t) ps"
    by (rule scan_pathList_cong) (rule agree)
  finally show ?thesis .
qed

lemma match_normal_or_none:
  assumes "match_lookup env tbl raw cur rf = Inr (rcd, location, rf')"
    and "case rcd of None \<Rightarrow> True | Some r \<Rightarrow> normal_record r"
  shows "match d env tbl raw cur rf = Inr (createRoute env rcd location rf')"
  using assms
  by (cases d; cases rcd) (auto simp: match_def match_body_def normal_record_def)


lemma addRoutes_unfold:
  "addRoutes env tbl routes =
     (addRouteRecords env routes tbl)
       \<lparr>pathList := ensure_wildcard_last (pathList (addRouteRecords env routes tbl))\<rparr>"
  by (simp add: addRoutes_def createRouteMap_unfold)

lemma match_lookup_by_name:
  assumes "nameMap t' = nameMap t \<or> nameMap t' (the (loc_name (normalizeLocation env raw cur False)))
             = nameMap t (the (loc_name (normalizeLocation env raw cur False)))"
    and "truthy (loc_name (normalizeLocation env raw cur False))"
  shows "match_lookup env t' raw cur rf = match_lookup env t raw cur rf"
  using assms by (auto simp: match_lookup_def Let_def)

lemma match_lookup_by_path:
  assumes "\<not> truthy (loc_name (normalizeLocation env raw cur False))"
    and "scan_pathList env (pathMap t') (the (loc_path (normalizeLocation env raw cur False)))
           (pathList t') (Some [])
       = scan_pathList env (pathMap t) (the (loc_path (normalizeLocation env raw cur False)))
           (pathList t) (Some [])"
  shows "match_lookup env t' raw cur rf = match_lookup env t raw cur rf"
  using assms by (simp add: match_lookup_def Let_def)

section \<open>Named routes reuse the required params of the current route\<close>

lemma update_fresh: "k \<notin> fst ` set al \<Longrightarrow> AList.update k v al = al @ [(k, v)]"
  by (induction al) auto

lemma backfill_Nil: "backfill names [] ps = ps"
  by (simp add: backfill_def)

lemma backfill_copy:
  "\<not> key_in key ps \<Longrightarrow> KName key \<in> set names
     \<Longrightarrow> backfill names ((key, v) # cs) ps = backfill names cs (ps @ [(key, v)])"
  by (simp add: backfill_def key_in_def update_fresh)

lemma backfill_skip:
  "key_in key ps \<or> KName key \<notin> set names
     \<Longrightarrow> backfill names ((key, v) # cs) ps = backfill names cs ps"
  by (auto simp: backfill_def)

lemma map_of_None_keys: "map_of xs k = None \<longleftrightarrow> k \<notin> fst ` set xs"
  by (simp add: map_of_eq_None_iff)

lemma backfill_map_of:
  "map_of (backfill names cs ps) k =
     (if k \<in> fst ` set ps then map_of ps k
      else if KName k \<in> set names \<and> k \<notin> set Object_prototype then map_of cs k else None)"
proof (induction cs arbitrary: ps)
  case Nil
  show ?case
    by (auto simp: backfill_Nil map_of_None_keys)
next
  case (Cons c cs)
  obtain key v where c: "c = (key, v)" by (cases c)
  show ?case
  proof (cases "\<not> key_in key ps \<and> KName key \<in> set names")
    case True
    then have t: "key \<notin> fst ` set ps" "key \<notin> set Object_prototype" "KName key \<in> set names"
      by (simp_all add: key_in_def)
    from True have "map_of (backfill names (c # cs) ps) k
        = map_of (backfill names cs (ps @ [(key, v)])) k"
      by (simp add: c backfill_copy)
    also have "\<dots> = (if k \<in> fst ` set (ps @ [(key, v)])
                       then map_of (ps @ [(key, v)]) k
                       else if KName k \<in> set names \<and> k \<notin> set Object_prototype
                            then map_of cs k else None)"
      by (rule Cons.IH)
    finally have eq: "map_of (backfill names (c # cs) ps) k =
        (if k \<in> fst ` set (ps @ [(key, v)])
         then map_of (ps @ [(key, v)]) k
         else if KName k \<in> set names \<and> k \<notin> set Object_prototype then map_of cs k else None)" .
    from t(1) have none: "map_of ps key = None" by (simp add: map_of_None_keys)
    show ?thesis
    proof (cases "k = key")
      case True
      with eq none t show ?thesis
        by (simp add: c map_add_def)
    next
      case False
      have "map_of (ps @ [(key, v)]) k = map_of ps k"
        using False by (simp add: map_add_def split: option.splits)
      with eq False show ?thesis by (auto simp: c)
    qed
  next
    case False
    then have "map_of (backfill names (c # cs) ps) k = map_of (backfill names cs ps) k"
      by (simp add: c backfill_skip)
    also have "\<dots> = (if k \<in> fst ` set ps then map_of ps k
                       else if KName k \<in> set names \<and> k \<notin> set Object_prototype
                            then map_of cs k else None)"
      by (rule Cons.IH)
    finally show ?thesis
      using False by (auto simp: c key_in_def)
  qed
qed

lemma backfill_appends: "\<exists>added. backfill names cs ps = ps @ added"
proof (induction cs arbitrary: ps)
  case Nil
  show ?case by (simp add: backfill_Nil)
next
  case (Cons c cs)
  obtain key v where c: "c = (key, v)" by (cases c)
  show ?case
  proof (cases "\<not> key_in key ps \<and> KName key \<in> set names")
    case True
    from Cons.IH [of "ps @ [(key, v)]"] obtain added where
      "backfill names cs (ps @ [(key, v)]) = (ps @ [(key, v)]) @ added" by blast
    with True show ?thesis by (simp add: c backfill_copy)
  next
    case False
    then have "backfill names (c # cs) ps = backfill names cs ps"
      by (simp add: c backfill_skip)
    with Cons.IH [of ps] show ?thesis by simp
  qed
qed

lemma backfill_keys:
  "fst ` set (backfill names cs ps) =
     fst ` set ps \<union> {k \<in> fst ` set cs. \<not> key_in k ps \<and> KName k \<in> set names}"
proof -
  have "k \<notin> fst ` set (backfill names cs ps) \<longleftrightarrow>
        \<not> (k \<in> fst ` set ps \<or> (\<not> key_in k ps \<and> KName k \<in> set names \<and> k \<in> fst ` set cs))" for k
  proof -
    have "k \<notin> fst ` set (backfill names cs ps) \<longleftrightarrow> map_of (backfill names cs ps) k = None"
      by (simp only: map_of_None_keys)
    also have "\<dots> \<longleftrightarrow>
        \<not> (k \<in> fst ` set ps \<or> (\<not> key_in k ps \<and> KName k \<in> set names \<and> k \<in> fst ` set cs))"
      unfolding backfill_map_of by (auto simp: map_of_None_keys key_in_def)
    finally show ?thesis .
  qed
  then show ?thesis by blast
qed

text \<open>
  A match by name that finds its record, with a current route: the params handed to
  \<^verbatim>\<open>fillParams\<close> are the params of the location followed by the copied ones. A key is copied
  from the params of the current route exactly when \<^verbatim>\<open>key in location.params\<close> is false and
  it is one of the names of the record's keys that are not optional; the copied value is
  the current route's; a key the location has keeps its value.
\<close>

lemma match_lookup_backfill:
  assumes "truthy (loc_name (normalizeLocation env raw (Some cur) False))"
    and "nameMap tbl (the (loc_name (normalizeLocation env raw (Some cur) False))) = Some rcd"
  shows
    "(let location = normalizeLocation env raw (Some cur) False;
          required = map key_name (filter (\<lambda>key. \<not> key_optional key) (re_keys (rec_regex rcd)));
          given = (case loc_params location of None \<Rightarrow> [] | Some ps \<Rightarrow> ps)
      in \<exists>filled added.
           match_lookup env tbl raw (Some cur) redirectedFrom
             = Inr (Some rcd,
                    location\<lparr>loc_params := Some filled,
                             loc_path := Some (fillParams env (rec_path rcd) (Some filled))\<rparr>,
                    redirectedFrom)
           \<and> filled = given @ added
           \<and> fst ` set filled =
               fst ` set given
               \<union> {k \<in> fst ` set (route_params cur). \<not> key_in k given \<and> KName k \<in> set required}
           \<and> (\<forall>k. map_of filled k =
                 (if k \<in> fst ` set given then map_of given k
                  else if KName k \<in> set required \<and> k \<notin> set Object_prototype
                       then map_of (route_params cur) k
                  else None)))"
proof -
  define location where "location = normalizeLocation env raw (Some cur) False"
  define required where
    "required = map key_name (filter (\<lambda>key. \<not> key_optional key) (re_keys (rec_regex rcd)))"
  define given where "given = (case loc_params location of None \<Rightarrow> [] | Some ps \<Rightarrow> ps)"
  define filled where "filled = backfill required (route_params cur) given"
  from backfill_appends [of required "route_params cur" given]
  obtain added where added: "filled = given @ added" unfolding filled_def by blast
  have lk: "match_lookup env tbl raw (Some cur) redirectedFrom
             = Inr (Some rcd,
                    location\<lparr>loc_params := Some filled,
                             loc_path := Some (fillParams env (rec_path rcd) (Some filled))\<rparr>,
                    redirectedFrom)"
    using assms
    by (cases "loc_params location")
       (simp_all add: match_lookup_def Let_def location_def [symmetric] required_def [symmetric]
          given_def filled_def)
  have keys: "fst ` set filled =
               fst ` set given
               \<union> {k \<in> fst ` set (route_params cur). \<not> key_in k given \<and> KName k \<in> set required}"
    unfolding filled_def by (rule backfill_keys)
  have vals: "\<forall>k. map_of filled k =
                 (if k \<in> fst ` set given then map_of given k
                  else if KName k \<in> set required \<and> k \<notin> set Object_prototype
                       then map_of (route_params cur) k
                  else None)"
    unfolding filled_def by (simp add: backfill_map_of)
  show ?thesis
    unfolding Let_def location_def [symmetric] required_def [symmetric] given_def [symmetric]
    using lk added keys vals by blast
qed

section \<open>What match returns\<close>

lemma formatMatch_last: "formatMatch r \<noteq> [] \<and> last (formatMatch r) = r"
proof (cases r)
  case (RouteRecord p rg cs ins n parent ma rd be m)
  then show ?thesis by (cases parent) simp_all
qed

lemma createRoute_matched:
  "route_matched (createRoute env None location rf) = []"
  "route_matched (createRoute env (Some r) location rf) = formatMatch r"
  "route_redirectedFrom (createRoute env rcd location rf) = map_option (getFullPath env) rf"
  "route_params (createRoute env rcd location rf)
     = (case loc_params location of None \<Rightarrow> [] | Some ps \<Rightarrow> ps)"
  by (simp_all add: createRoute_def)

lemma match_lookup_redirectedFrom:
  "match_lookup env tbl raw cur rf = Inr (Some r, location, rf') \<Longrightarrow> rf' = rf"
  by (auto simp: match_lookup_def Let_def split: if_splits option.splits sum.splits)

lemma match_unfold:
  "match d env tbl raw cur rf =
     (case match_lookup env tbl raw cur rf of
        Inl e \<Rightarrow> Inl e
      | Inr (rcd, location, rf') \<Rightarrow> createRoute_internal d env tbl rcd location rf')"
  by (simp add: match_def match_body_def)

lemma createRoute_internal_plain:
  "case rcd of None \<Rightarrow> True | Some r \<Rightarrow> normal_record r
     \<Longrightarrow> createRoute_internal d env tbl rcd location rf = Inr (createRoute env rcd location rf)"
  by (cases d; cases rcd) (auto simp: normal_record_def)

lemma createRoute_internal_malformed:
  assumes "redirect_truthy (rec_redirect r)"
    and "malformed_redirect env r (case rf of None \<Rightarrow> location | Some l \<Rightarrow> l)"
  shows "createRoute_internal (Suc d) env tbl (Some r) location rf
       = Inr (createRoute env None (case rf of None \<Rightarrow> location | Some l \<Rightarrow> l) None)"
  using assms
  by (auto simp: redirect_body_def malformed_redirect_def split: option.splits)

lemma createRoute_internal_hop:
  assumes "hop env tbl (case rf of None \<Rightarrow> location | Some l \<Rightarrow> l) r = Some (r', location')"
  shows "createRoute_internal (Suc d) env tbl (Some r) location rf
       = createRoute_internal d env tbl (Some r') location'
           (Some (case rf of None \<Rightarrow> location | Some l \<Rightarrow> l))"
proof -
  let ?orig = "case rf of None \<Rightarrow> location | Some l \<Rightarrow> l"
  from assms have rt: "redirect_truthy (rec_redirect r)"
    by (auto simp: hop_def split: if_splits)
  from assms rt obtain re target rf' where
    v: "redirect_value env r ?orig = Some re"
    and t: "redirect_target env r ?orig re = Some target"
    and a: "redirect_assert env tbl re = None"
    and lk: "match_lookup env tbl (RawObject target) None (Some ?orig) = Inr (Some r', location', rf')"
    by (auto simp: hop_def split: option.splits sum.splits)
  from match_lookup_redirectedFrom [OF lk] have "rf' = Some ?orig" .
  with rt v t a lk show ?thesis
    by (simp add: redirect_body_def match_body_def)
qed

lemma createRoute_internal_alias:
  assumes "\<not> redirect_truthy (rec_redirect r)" and "truthy (rec_matchAs r)"
    and "match_lookup env tbl
           (RawObject \<lparr>loc_normalized = True, loc_name = None,
                       loc_path = Some (fillParams env (the (rec_matchAs r)) (loc_params location)),
                       loc_query = None, loc_hash = None, loc_params = None\<rparr>)
           None None = Inr (Some real, location', rf')"
    and "normal_record real"
  shows "createRoute_internal (Suc d) env tbl (Some r) location rf
       = Inr (createRoute env (Some real)
               (location\<lparr>loc_params :=
                  Some (case loc_params location' of None \<Rightarrow> [] | Some ps \<Rightarrow> ps)\<rparr>) None)"
proof -
  have n: "case Some real of None \<Rightarrow> True | Some r \<Rightarrow> normal_record r"
    using assms(4) by simp
  show ?thesis
    using assms(1,2,3) formatMatch_last [of real]
    by (simp add: alias_body_def match_body_def Let_def createRoute_internal_plain [OF n]
          createRoute_matched)
qed

text \<open>A chain of redirects that ends in a record that is neither a redirect nor an alias.\<close>

lemma redirect_chain_resolves:
  assumes "redirect_chain env tbl orig (r # rs) final final_location"
    and "normal_record final"
    and "length (r # rs) \<le> d"
    and "(case rf of None \<Rightarrow> location | Some l \<Rightarrow> l) = orig"
  shows "createRoute_internal d env tbl (Some r) location rf
       = Inr (createRoute env (Some final) final_location (Some orig))"
  using assms
proof (induction rs arbitrary: r d location rf)
  case Nil
  then obtain d' where d: "d = Suc d'" by (cases d) auto
  from Nil.prems(1) have h: "hop env tbl orig r = Some (final, final_location)" by simp
  have n: "case Some final of None \<Rightarrow> True | Some r \<Rightarrow> normal_record r"
    using Nil.prems(2) by simp
  from h Nil.prems(4)
  have h': "hop env tbl (case rf of None \<Rightarrow> location | Some l \<Rightarrow> l) r = Some (final, final_location)"
    by simp
  have "createRoute_internal (Suc d') env tbl (Some r) location rf
      = createRoute_internal d' env tbl (Some final) final_location
          (Some (case rf of None \<Rightarrow> location | Some l \<Rightarrow> l))"
    by (rule createRoute_internal_hop [OF h'])
  also have "\<dots> = Inr (createRoute env (Some final) final_location (Some orig))"
    by (simp only: createRoute_internal_plain [OF n] Nil.prems(4))
  finally show ?case by (simp only: d)
next
  case (Cons r' rs)
  then obtain d' where d: "d = Suc d'" by (cases d) auto
  from Cons.prems(1) obtain location' where
    h: "hop env tbl orig r = Some (r', location')"
    and rest: "redirect_chain env tbl orig (r' # rs) final final_location"
    by (auto split: option.splits)
  have "createRoute_internal d' env tbl (Some r') location' (Some orig)
      = Inr (createRoute env (Some final) final_location (Some orig))"
    using Cons.prems(3) by (intro Cons.IH [OF rest Cons.prems(2)]) (simp_all add: d)
  moreover from h Cons.prems(4)
  have h': "hop env tbl (case rf of None \<Rightarrow> location | Some l \<Rightarrow> l) r = Some (r', location')"
    by simp
  have "createRoute_internal (Suc d') env tbl (Some r) location rf
      = createRoute_internal d' env tbl (Some r') location'
          (Some (case rf of None \<Rightarrow> location | Some l \<Rightarrow> l))"
    by (rule createRoute_internal_hop [OF h'])
  ultimately show ?case by (simp only: d Cons.prems(4))
qed



lemma createRoute_internal_by_name:
  assumes "redirect_truthy (rec_redirect r)"
    and "redirect_value env r (case rf of None \<Rightarrow> location | Some l \<Rightarrow> l) = Some re"
    and "redirect_target env r (case rf of None \<Rightarrow> location | Some l \<Rightarrow> l) re = Some target"
  shows "createRoute_internal (Suc d) env tbl (Some r) location rf =
           (case redirect_assert env tbl re of
              Some e \<Rightarrow> Inl e
            | None \<Rightarrow> match d env tbl (RawObject target) None
                        (Some (case rf of None \<Rightarrow> location | Some l \<Rightarrow> l)))"
  using assms
  by (cases "redirect_assert env tbl re") (simp_all add: redirect_body_def match_def)

text \<open>
  C2, as the code has it. \<^verbatim>\<open>match\<close> returns a route with no matched record for a name that
  is not registered, for a path that no pattern of the list matches, for a location with
  neither, and for a record whose redirect is malformed: its value is no object, or the
  object has neither a name nor a path (one level of calls is left for \<^verbatim>\<open>redirect\<close>). For a
  redirect by a name that is not registered, a development build whose assertion throws
  raises that error; a production build, or an assertion that returns, gives a route with no
  matched record when the target passes through normalisation unchanged. For a name whose
  record is neither a redirect nor an alias, \<^verbatim>\<open>match\<close> returns the route of that record
  whatever \<^verbatim>\<open>fillParams\<close> hands back: the matched records are the chain of the record,
  which is never empty, and the path of the route is that value, or \<^verbatim>\<open>/\<close> when the value is
  the empty string.
\<close>

theorem match_returns_route:
  "(let location = normalizeLocation env raw currentRoute False
    in (truthy (loc_name location) \<longrightarrow> nameMap tbl (the (loc_name location)) = None
          \<longrightarrow> match d env tbl raw currentRoute redirectedFrom
              = Inr (createRoute env None location None))
       \<and> (\<not> truthy (loc_name location) \<longrightarrow> truthy (loc_path location)
          \<longrightarrow> (\<forall>p \<in> set (pathList tbl). no_match env (pathMap tbl) (the (loc_path location)) p)
          \<longrightarrow> match d env tbl raw currentRoute redirectedFrom
              = Inr (createRoute env None (location\<lparr>loc_params := Some []\<rparr>) None))
       \<and> (\<not> truthy (loc_name location) \<longrightarrow> \<not> truthy (loc_path location)
          \<longrightarrow> match d env tbl raw currentRoute redirectedFrom
              = Inr (createRoute env None location None))
       \<and> (\<forall>r location' rf.
             match_lookup env tbl raw currentRoute redirectedFrom = Inr (Some r, location', rf)
             \<longrightarrow> redirect_truthy (rec_redirect r)
             \<longrightarrow> malformed_redirect env r (case rf of None \<Rightarrow> location' | Some l \<Rightarrow> l)
             \<longrightarrow> match (Suc d) env tbl raw currentRoute redirectedFrom
                 = Inr (createRoute env None (case rf of None \<Rightarrow> location' | Some l \<Rightarrow> l) None))
       \<and> (\<forall>r location' rf re target.
             match_lookup env tbl raw currentRoute redirectedFrom = Inr (Some r, location', rf)
             \<longrightarrow> redirect_truthy (rec_redirect r)
             \<longrightarrow> redirect_value env r (case rf of None \<Rightarrow> location' | Some l \<Rightarrow> l) = Some re
             \<longrightarrow> redirect_target env r (case rf of None \<Rightarrow> location' | Some l \<Rightarrow> l) re = Some target
             \<longrightarrow> truthy (ro_name re) \<longrightarrow> nameMap tbl (the (ro_name re)) = None
             \<longrightarrow> (\<forall>e. dev env \<longrightarrow> assert env False = Some e
                    \<longrightarrow> match (Suc d) env tbl raw currentRoute redirectedFrom = Inl e)
                 \<and> ((dev env \<longrightarrow> assert env False = None)
                    \<longrightarrow> normalizeLocation env (RawObject target) None False = target
                    \<longrightarrow> match (Suc d) env tbl raw currentRoute redirectedFrom
                        = Inr (createRoute env None target None)))
       \<and> (\<forall>r. truthy (loc_name location) \<longrightarrow> nameMap tbl (the (loc_name location)) = Some r
             \<longrightarrow> normal_record r
             \<longrightarrow> (\<exists>location'.
                    match d env tbl raw currentRoute redirectedFrom
                      = Inr (createRoute env (Some r) location' redirectedFrom)
                    \<and> loc_path location' = Some (fillParams env (rec_path r) (loc_params location'))
                    \<and> route_path (createRoute env (Some r) location' redirectedFrom)
                        = (if fillParams env (rec_path r) (loc_params location') = [] then ''/''
                           else fillParams env (rec_path r) (loc_params location'))
                    \<and> route_matched (createRoute env (Some r) location' redirectedFrom)
                        = formatMatch r
                    \<and> formatMatch r \<noteq> []))
       \<and> (\<forall>location' rf. route_matched (createRoute env None location' rf) = []))"
proof -
  define location where "location = normalizeLocation env raw currentRoute False"
  have none: "case None of None \<Rightarrow> True | Some r \<Rightarrow> normal_record r" by simp
  have a: "truthy (loc_name location) \<longrightarrow> nameMap tbl (the (loc_name location)) = None
          \<longrightarrow> match d env tbl raw currentRoute redirectedFrom
              = Inr (createRoute env None location None)"
  proof (intro impI)
    assume "truthy (loc_name location)" "nameMap tbl (the (loc_name location)) = None"
    then have "match_lookup env tbl raw currentRoute redirectedFrom = Inr (None, location, None)"
      by (simp add: match_lookup_def Let_def location_def)
    from match_normal_or_none [OF this none]
    show "match d env tbl raw currentRoute redirectedFrom = Inr (createRoute env None location None)" .
  qed
  have b: "\<not> truthy (loc_name location) \<longrightarrow> truthy (loc_path location)
          \<longrightarrow> (\<forall>p \<in> set (pathList tbl). no_match env (pathMap tbl) (the (loc_path location)) p)
          \<longrightarrow> match d env tbl raw currentRoute redirectedFrom
              = Inr (createRoute env None (location\<lparr>loc_params := Some []\<rparr>) None)"
  proof (intro impI)
    assume 1: "\<not> truthy (loc_name location)" "truthy (loc_path location)"
      and 2: "\<forall>p \<in> set (pathList tbl). no_match env (pathMap tbl) (the (loc_path location)) p"
    from 2 have "scan_pathList env (pathMap tbl) (the (loc_path location)) (pathList tbl) (Some [])
        = Inr None"
      by (rule scan_pathList_all_no_match)
    with 1 have "match_lookup env tbl raw currentRoute redirectedFrom
        = Inr (None, location\<lparr>loc_params := Some []\<rparr>, None)"
      by (simp add: match_lookup_def Let_def location_def)
    from match_normal_or_none [OF this none]
    show "match d env tbl raw currentRoute redirectedFrom
              = Inr (createRoute env None (location\<lparr>loc_params := Some []\<rparr>) None)" .
  qed
  have c: "\<not> truthy (loc_name location) \<longrightarrow> \<not> truthy (loc_path location)
          \<longrightarrow> match d env tbl raw currentRoute redirectedFrom
              = Inr (createRoute env None location None)"
  proof (intro impI)
    assume "\<not> truthy (loc_name location)" "\<not> truthy (loc_path location)"
    then have "match_lookup env tbl raw currentRoute redirectedFrom = Inr (None, location, None)"
      by (simp add: match_lookup_def Let_def location_def)
    from match_normal_or_none [OF this none]
    show "match d env tbl raw currentRoute redirectedFrom = Inr (createRoute env None location None)" .
  qed
  have m: "\<forall>r location' rf.
             match_lookup env tbl raw currentRoute redirectedFrom = Inr (Some r, location', rf)
             \<longrightarrow> redirect_truthy (rec_redirect r)
             \<longrightarrow> malformed_redirect env r (case rf of None \<Rightarrow> location' | Some l \<Rightarrow> l)
             \<longrightarrow> match (Suc d) env tbl raw currentRoute redirectedFrom
                 = Inr (createRoute env None (case rf of None \<Rightarrow> location' | Some l \<Rightarrow> l) None)"
  proof (intro allI impI)
    fix r location' rf
    assume 1: "match_lookup env tbl raw currentRoute redirectedFrom = Inr (Some r, location', rf)"
      and 2: "redirect_truthy (rec_redirect r)"
      and 3: "malformed_redirect env r (case rf of None \<Rightarrow> location' | Some l \<Rightarrow> l)"
    from 1 createRoute_internal_malformed [OF 2 3]
    show "match (Suc d) env tbl raw currentRoute redirectedFrom
            = Inr (createRoute env None (case rf of None \<Rightarrow> location' | Some l \<Rightarrow> l) None)"
      by (simp add: match_unfold)
  qed
  have e: "\<forall>r location' rf re target.
             match_lookup env tbl raw currentRoute redirectedFrom = Inr (Some r, location', rf)
             \<longrightarrow> redirect_truthy (rec_redirect r)
             \<longrightarrow> redirect_value env r (case rf of None \<Rightarrow> location' | Some l \<Rightarrow> l) = Some re
             \<longrightarrow> redirect_target env r (case rf of None \<Rightarrow> location' | Some l \<Rightarrow> l) re = Some target
             \<longrightarrow> truthy (ro_name re) \<longrightarrow> nameMap tbl (the (ro_name re)) = None
             \<longrightarrow> (\<forall>e. dev env \<longrightarrow> assert env False = Some e
                    \<longrightarrow> match (Suc d) env tbl raw currentRoute redirectedFrom = Inl e)
                 \<and> ((dev env \<longrightarrow> assert env False = None)
                    \<longrightarrow> normalizeLocation env (RawObject target) None False = target
                    \<longrightarrow> match (Suc d) env tbl raw currentRoute redirectedFrom
                        = Inr (createRoute env None target None))"
  proof (intro allI impI)
    fix r location' rf re target
    assume 1: "match_lookup env tbl raw currentRoute redirectedFrom = Inr (Some r, location', rf)"
      and 2: "redirect_truthy (rec_redirect r)"
      and 3: "redirect_value env r (case rf of None \<Rightarrow> location' | Some l \<Rightarrow> l) = Some re"
      and 4: "redirect_target env r (case rf of None \<Rightarrow> location' | Some l \<Rightarrow> l) re = Some target"
      and 5: "truthy (ro_name re)" and 6: "nameMap tbl (the (ro_name re)) = None"
    let ?orig = "case rf of None \<Rightarrow> location' | Some l \<Rightarrow> l"
    have m: "match (Suc d) env tbl raw currentRoute redirectedFrom =
           (case redirect_assert env tbl re of
              Some e \<Rightarrow> Inl e
            | None \<Rightarrow> match d env tbl (RawObject target) None (Some ?orig))"
      using 1 createRoute_internal_by_name [OF 2 3 4] by (simp add: match_unfold)
    have t: "loc_name target = ro_name re"
      using 4 5 by (auto simp: redirect_target_def Let_def)
    have x: "match (Suc d) env tbl raw currentRoute redirectedFrom = Inl e"
      if "dev env" "assert env False = Some e" for e
      using that 5 6 by (simp add: m redirect_assert_def)
    have y: "match (Suc d) env tbl raw currentRoute redirectedFrom
               = Inr (createRoute env None target None)"
      if "dev env \<longrightarrow> assert env False = None"
        and n: "normalizeLocation env (RawObject target) None False = target"
    proof -
      from that(1) 5 6 have "redirect_assert env tbl re = None"
        by (auto simp: redirect_assert_def)
      moreover have "match_lookup env tbl (RawObject target) None (Some ?orig)
                       = Inr (None, target, None)"
        using 5 6 t by (simp add: match_lookup_def Let_def n)
      ultimately show ?thesis
        using match_normal_or_none [of env tbl "RawObject target" None "Some ?orig" None target None d]
        by (simp add: m)
    qed
    from x y show
      "(\<forall>e. dev env \<longrightarrow> assert env False = Some e
          \<longrightarrow> match (Suc d) env tbl raw currentRoute redirectedFrom = Inl e)
       \<and> ((dev env \<longrightarrow> assert env False = None)
          \<longrightarrow> normalizeLocation env (RawObject target) None False = target
          \<longrightarrow> match (Suc d) env tbl raw currentRoute redirectedFrom
              = Inr (createRoute env None target None))" by blast
  qed
  have n: "\<forall>r. truthy (loc_name location) \<longrightarrow> nameMap tbl (the (loc_name location)) = Some r
             \<longrightarrow> normal_record r
             \<longrightarrow> (\<exists>location'.
                    match d env tbl raw currentRoute redirectedFrom
                      = Inr (createRoute env (Some r) location' redirectedFrom)
                    \<and> loc_path location' = Some (fillParams env (rec_path r) (loc_params location'))
                    \<and> route_path (createRoute env (Some r) location' redirectedFrom)
                        = (if fillParams env (rec_path r) (loc_params location') = [] then ''/''
                           else fillParams env (rec_path r) (loc_params location'))
                    \<and> route_matched (createRoute env (Some r) location' redirectedFrom)
                        = formatMatch r
                    \<and> formatMatch r \<noteq> [])"
  proof (intro allI impI)
    fix r
    assume 1: "truthy (loc_name location)" "nameMap tbl (the (loc_name location)) = Some r"
      and 3: "normal_record r"
    from 1 obtain location' where
      lk: "match_lookup env tbl raw currentRoute redirectedFrom = Inr (Some r, location', redirectedFrom)"
      and p: "loc_path location' = Some (fillParams env (rec_path r) (loc_params location'))"
      by (auto simp: match_lookup_def Let_def location_def split: option.splits)
    have nr: "case Some r of None \<Rightarrow> True | Some r \<Rightarrow> normal_record r" using 3 by simp
    have rp: "route_path (createRoute env (Some r) location' redirectedFrom)
                = (if fillParams env (rec_path r) (loc_params location') = [] then ''/''
                   else fillParams env (rec_path r) (loc_params location'))"
      by (simp add: createRoute_def p truthy_def)
    from match_normal_or_none [OF lk nr] p rp formatMatch_last [of r]
    show "\<exists>location'.
            match d env tbl raw currentRoute redirectedFrom
              = Inr (createRoute env (Some r) location' redirectedFrom)
            \<and> loc_path location' = Some (fillParams env (rec_path r) (loc_params location'))
            \<and> route_path (createRoute env (Some r) location' redirectedFrom)
                = (if fillParams env (rec_path r) (loc_params location') = [] then ''/''
                   else fillParams env (rec_path r) (loc_params location'))
            \<and> route_matched (createRoute env (Some r) location' redirectedFrom) = formatMatch r
            \<and> formatMatch r \<noteq> []"
      by (intro exI [of _ location']) (simp add: createRoute_matched)
  qed
  have g: "\<forall>location' rf. route_matched (createRoute env None location' rf) = []"
    by (simp add: createRoute_matched)
  show ?thesis
    unfolding Let_def location_def [symmetric]
    by (intro conjI) (rule a b c m e n g)+
qed

text \<open>
  C3, as the code has it. \<^verbatim>\<open>redirect\<close> builds the target of every redirecting record from the
  original location: the location of the first lookup, or the \<^verbatim>\<open>redirectedFrom\<close> that the
  caller passed. When the record found for a location is the first of a chain of
  redirecting records, each hop taken in that way, that ends in a record that is neither a
  redirect nor an alias, and the stack has a level for each hop, \<^verbatim>\<open>match\<close> returns the route
  of the final record, and its \<^verbatim>\<open>redirectedFrom\<close> is the full path of the original location.
\<close>

theorem redirect_chain_reports_original:
  assumes "match_lookup env tbl raw currentRoute redirectedFrom = Inr (Some r, location, rf)"
    and "orig = (case redirectedFrom of None \<Rightarrow> location | Some l \<Rightarrow> l)"
    and "redirect_chain env tbl orig (r # rs) final final_location"
    and "normal_record final"
    and "length (r # rs) \<le> d"
  shows "match d env tbl raw currentRoute redirectedFrom
           = Inr (createRoute env (Some final) final_location (Some orig))
         \<and> route_matched (createRoute env (Some final) final_location (Some orig))
             = formatMatch final
         \<and> route_redirectedFrom (createRoute env (Some final) final_location (Some orig))
             = Some (getFullPath env orig)"
proof -
  from match_lookup_redirectedFrom [OF assms(1)] have rf: "rf = redirectedFrom" .
  have "createRoute_internal d env tbl (Some r) location rf
      = Inr (createRoute env (Some final) final_location (Some orig))"
    by (rule redirect_chain_resolves [OF assms(3,4,5)]) (simp add: rf assms(2))
  with assms(1) show ?thesis
    by (simp add: match_unfold createRoute_matched)
qed

section \<open>Resolution after a later registration\<close>

lemma redirect_body_alike:
  assumes cr: "\<And>rcd' location' rf'.
                 match_lookup env t (RawObject target) None (Some orig) = Inr (rcd', location', rf')
                 \<Longrightarrow> cr' rcd' location' rf' = cr rcd' location' rf'"
    and v: "redirect_value env r orig = Some re"
    and tg: "redirect_target env r orig re = Some target"
    and a: "redirect_assert env t' re = redirect_assert env t re"
    and l: "redirect_assert env t re = None \<Longrightarrow>
              match_lookup env t' (RawObject target) None (Some orig)
                = match_lookup env t (RawObject target) None (Some orig)"
  shows "redirect_body cr' env t' r orig = redirect_body cr env t r orig"
proof (cases "redirect_assert env t re")
  case (Some e)
  with v tg a show ?thesis by (simp add: redirect_body_def)
next
  case None
  note lk = l [OF None]
  show ?thesis
  proof (cases "match_lookup env t (RawObject target) None (Some orig)")
    case (Inl e)
    with v tg a None lk show ?thesis by (simp add: redirect_body_def match_body_def)
  next
    case (Inr res)
    obtain rcd' location' rf' where res: "res = (rcd', location', rf')" by (cases res)
    from Inr res cr have "cr' rcd' location' rf' = cr rcd' location' rf'" by simp
    with v tg a None lk Inr res show ?thesis by (simp add: redirect_body_def match_body_def)
  qed
qed

lemma alias_body_alike:
  assumes l: "match_lookup env t' (alias_target env matchAs location) None None
                = match_lookup env t (alias_target env matchAs location) None None"
    and cr: "\<And>rcd' location' rf'.
                 match_lookup env t (alias_target env matchAs location) None None
                   = Inr (rcd', location', rf')
                 \<Longrightarrow> cr' rcd' location' rf' = cr rcd' location' rf'
                    \<and> (\<forall>m. cr rcd' location' rf' = Inr m \<longrightarrow>
                          cr' (if route_matched m = [] then None else Some (last (route_matched m)))
                              (location\<lparr>loc_params := Some (route_params m)\<rparr>) None
                          = cr (if route_matched m = [] then None else Some (last (route_matched m)))
                              (location\<lparr>loc_params := Some (route_params m)\<rparr>) None)"
  shows "alias_body cr' env t' r location matchAs = alias_body cr env t r location matchAs"
proof (cases "match_lookup env t (alias_target env matchAs location) None None")
  case (Inl e)
  with l show ?thesis
    by (simp add: alias_body_def match_body_def Let_def alias_target_def)
next
  case (Inr res)
  obtain rcd' location' rf' where res: "res = (rcd', location', rf')" by (cases res)
  from cr [of rcd' location' rf'] Inr res have
    1: "cr' rcd' location' rf' = cr rcd' location' rf'"
    and 2: "\<And>m. cr rcd' location' rf' = Inr m \<Longrightarrow>
              cr' (if route_matched m = [] then None else Some (last (route_matched m)))
                  (location\<lparr>loc_params := Some (route_params m)\<rparr>) None
              = cr (if route_matched m = [] then None else Some (last (route_matched m)))
                  (location\<lparr>loc_params := Some (route_params m)\<rparr>) None"
    by simp_all
  show ?thesis
  proof (cases "cr rcd' location' rf'")
    case (Inl e)
    with l Inr res 1 show ?thesis
      by (simp add: alias_body_def match_body_def Let_def alias_target_def)
  next
    case (Inr m)
    with l \<open>match_lookup env t (alias_target env matchAs location) None None = Inr res\<close> res 1 2 [OF Inr]
    show ?thesis
      by (simp add: alias_body_def match_body_def Let_def alias_target_def)
  qed
qed

lemma resolves_alike_createRoute_internal:
  "resolves_alike d env t t' rcd location rf
     \<Longrightarrow> createRoute_internal d env t' rcd location rf = createRoute_internal d env t rcd location rf"
proof (induction d arbitrary: rcd location rf)
  case 0
  show ?case by simp
next
  case (Suc d)
  show ?case
  proof (cases rcd)
    case None
    then show ?thesis by simp
  next
    case (Some r)
    let ?orig = "case rf of None \<Rightarrow> location | Some l \<Rightarrow> l"
    show ?thesis
    proof (cases "redirect_truthy (rec_redirect r)")
      case True
      show ?thesis
      proof (cases "redirect_value env r ?orig")
        case None
        with Some True show ?thesis by (simp add: redirect_body_def)
      next
        case v: (Some re)
        show ?thesis
        proof (cases "redirect_target env r ?orig re")
          case None
          with Some True v show ?thesis by (simp add: redirect_body_def)
        next
          case tg: (Some target)
          from Suc.prems Some True v tg have
            a: "redirect_assert env t' re = redirect_assert env t re"
            and l: "redirect_assert env t re = None \<Longrightarrow>
                      match_lookup env t' (RawObject target) None (Some ?orig)
                        = match_lookup env t (RawObject target) None (Some ?orig)"
            and n: "redirect_assert env t re = None \<Longrightarrow>
                      (case match_lookup env t (RawObject target) None (Some ?orig) of
                         Inl e \<Rightarrow> True
                       | Inr (rcd', location', rf') \<Rightarrow> resolves_alike d env t t' rcd' location' rf')"
            by simp_all
          have "redirect_body (createRoute_internal d env t') env t' r ?orig
              = redirect_body (createRoute_internal d env t) env t r ?orig"
          proof (cases "redirect_assert env t re")
            case (Some e)
            with v tg a show ?thesis by (simp add: redirect_body_def)
          next
            case None
            show ?thesis
            proof (rule redirect_body_alike [OF _ v tg a l])
              fix rcd' location' rf'
              assume "match_lookup env t (RawObject target) None (Some ?orig)
                        = Inr (rcd', location', rf')"
              with n [OF None] have "resolves_alike d env t t' rcd' location' rf'" by simp
              then show "createRoute_internal d env t' rcd' location' rf'
                           = createRoute_internal d env t rcd' location' rf'"
                by (rule Suc.IH)
            qed
          qed
          with Some True show ?thesis by simp
        qed
      qed
    next
      case False
      show ?thesis
      proof (cases "truthy (rec_matchAs r)")
        case nt: False
        with Some False show ?thesis by simp
      next
        case True
        let ?raw = "alias_target env (the (rec_matchAs r)) location"
        from Suc.prems Some False True have
          l: "match_lookup env t' ?raw None None = match_lookup env t ?raw None None"
          and n: "(case match_lookup env t ?raw None None of
                     Inl e \<Rightarrow> True
                   | Inr (rcd', location', rf') \<Rightarrow>
                       resolves_alike d env t t' rcd' location' rf'
                       \<and> (case createRoute_internal d env t rcd' location' rf' of
                            Inl e \<Rightarrow> True
                          | Inr aliasedMatch \<Rightarrow>
                              resolves_alike d env t t'
                                (if route_matched aliasedMatch = [] then None
                                 else Some (last (route_matched aliasedMatch)))
                                (location\<lparr>loc_params := Some (route_params aliasedMatch)\<rparr>) None))"
          by simp_all
        have "alias_body (createRoute_internal d env t') env t' r location (the (rec_matchAs r))
            = alias_body (createRoute_internal d env t) env t r location (the (rec_matchAs r))"
        proof (rule alias_body_alike [OF l])
          fix rcd' location' rf'
          assume lk: "match_lookup env t ?raw None None = Inr (rcd', location', rf')"
          with n have 1: "resolves_alike d env t t' rcd' location' rf'"
            and 2: "(case createRoute_internal d env t rcd' location' rf' of
                            Inl e \<Rightarrow> True
                          | Inr aliasedMatch \<Rightarrow>
                              resolves_alike d env t t'
                                (if route_matched aliasedMatch = [] then None
                                 else Some (last (route_matched aliasedMatch)))
                                (location\<lparr>loc_params := Some (route_params aliasedMatch)\<rparr>) None)"
            by simp_all
          have "createRoute_internal d env t' rcd' location' rf'
                  = createRoute_internal d env t rcd' location' rf'"
            using 1 by (rule Suc.IH)
          moreover have "createRoute_internal d env t'
                    (if route_matched m = [] then None else Some (last (route_matched m)))
                    (location\<lparr>loc_params := Some (route_params m)\<rparr>) None
                = createRoute_internal d env t
                    (if route_matched m = [] then None else Some (last (route_matched m)))
                    (location\<lparr>loc_params := Some (route_params m)\<rparr>) None"
            if "createRoute_internal d env t rcd' location' rf' = Inr m" for m
            using 2 that by (intro Suc.IH) simp
          ultimately show "createRoute_internal d env t' rcd' location' rf'
                  = createRoute_internal d env t rcd' location' rf'
              \<and> (\<forall>m. createRoute_internal d env t rcd' location' rf' = Inr m \<longrightarrow>
                    createRoute_internal d env t'
                      (if route_matched m = [] then None else Some (last (route_matched m)))
                      (location\<lparr>loc_params := Some (route_params m)\<rparr>) None
                  = createRoute_internal d env t
                      (if route_matched m = [] then None else Some (last (route_matched m)))
                      (location\<lparr>loc_params := Some (route_params m)\<rparr>) None)"
            by blast
        qed
        with Some False True show ?thesis by simp
      qed
    qed
  qed
qed

lemma resolves_alike_match:
  assumes "match_lookup env t' raw cur rf = match_lookup env t raw cur rf"
    and "\<And>rcd location rf'. match_lookup env t raw cur rf = Inr (rcd, location, rf')
           \<Longrightarrow> resolves_alike d env t t' rcd location rf'"
  shows "match d env t' raw cur rf = match d env t raw cur rf"
proof (cases "match_lookup env t raw cur rf")
  case (Inl e)
  with assms(1) show ?thesis by (simp add: match_def match_body_def)
next
  case (Inr res)
  obtain rcd location rf' where res: "res = (rcd, location, rf')" by (cases res)
  from Inr res assms(2) have "resolves_alike d env t t' rcd location rf'" by simp
  from resolves_alike_createRoute_internal [OF this] Inr res assms(1) show ?thesis
    by (simp add: match_def match_body_def)
qed

lemma redirect_assert_kept:
  assumes "\<And>n r. nameMap t n = Some r \<Longrightarrow> nameMap t' n = Some r"
    and "truthy (ro_name re) \<longrightarrow> the (ro_name re) \<in> dom (nameMap t)"
  shows "redirect_assert env t' re = redirect_assert env t re"
proof (cases "truthy (ro_name re)")
  case False
  then show ?thesis by (simp add: redirect_assert_def)
next
  case True
  with assms(2) obtain r where "nameMap t (the (ro_name re)) = Some r" by blast
  with assms(1) [OF this] show ?thesis by (simp add: redirect_assert_def)
qed

text \<open>
  C5, as the code has it. On a table built by \<^verbatim>\<open>createRouteMap\<close>, a later registration, one
  record at a time or a whole \<^verbatim>\<open>addRoutes\<close>, keeps every entry of the path map and of the
  name map: a path that is present keeps its record and stands in the path list as often
  as before, so the new record for that path is dropped. The table stays a built table. A
  lookup by a name that was registered, and a lookup by a path that none of the new
  patterns matches, give what they gave before, and so does the assertion on a redirect
  name that was registered. \<^verbatim>\<open>match\<close> returns what it returned before when the lookup of the
  location and every lookup of the resolution after it, of the targets of redirects and
  aliases, give what they gave before.
\<close>

theorem addRoutes_first_registration_wins:
  assumes "built tbl"
  shows
    "(let one = addRouteRecord env tbl route parent matchAs;
          tbl' = addRoutes env tbl routes;
          location = normalizeLocation env raw currentRoute False
      in (\<forall>p r. pathMap tbl p = Some r \<longrightarrow>
             pathMap one p = Some r \<and> count_list (pathList one) p = count_list (pathList tbl) p)
         \<and> (\<forall>n r. nameMap tbl n = Some r \<longrightarrow> nameMap one n = Some r)
         \<and> (\<forall>p r. pathMap tbl p = Some r \<longrightarrow>
               pathMap tbl' p = Some r \<and> count_list (pathList tbl') p = count_list (pathList tbl) p)
         \<and> (\<forall>n r. nameMap tbl n = Some r \<longrightarrow> nameMap tbl' n = Some r)
         \<and> built tbl'
         \<and> (truthy (loc_name location) \<longrightarrow> the (loc_name location) \<in> dom (nameMap tbl)
              \<longrightarrow> match_lookup env tbl' raw currentRoute redirectedFrom
                  = match_lookup env tbl raw currentRoute redirectedFrom)
         \<and> (\<not> truthy (loc_name location)
              \<longrightarrow> (\<forall>p \<in> set (pathList tbl') - set (pathList tbl).
                     no_match env (pathMap tbl') (the (loc_path location)) p)
              \<longrightarrow> match_lookup env tbl' raw currentRoute redirectedFrom
                  = match_lookup env tbl raw currentRoute redirectedFrom)
         \<and> ((truthy (ro_name re) \<longrightarrow> the (ro_name re) \<in> dom (nameMap tbl))
              \<longrightarrow> redirect_assert env tbl' re = redirect_assert env tbl re)
         \<and> (match_lookup env tbl' raw currentRoute redirectedFrom
               = match_lookup env tbl raw currentRoute redirectedFrom
              \<longrightarrow> (\<forall>rcd l rf. match_lookup env tbl raw currentRoute redirectedFrom = Inr (rcd, l, rf)
                     \<longrightarrow> resolves_alike d env tbl tbl' rcd l rf)
              \<longrightarrow> match d env tbl' raw currentRoute redirectedFrom
                  = match d env tbl raw currentRoute redirectedFrom))"
proof -
  define one where "one = addRouteRecord env tbl route parent matchAs"
  define t0 where "t0 = addRouteRecords env routes tbl"
  define tbl' where "tbl' = addRoutes env tbl routes"
  define location where "location = normalizeLocation env raw currentRoute False"
  have g1: "grows tbl one" unfolding one_def by (rule grows_addRouteRecord)
  have g0: "grows tbl t0" unfolding t0_def by (rule grows_addRouteRecords)
  have t': "pathMap tbl' = pathMap t0" "nameMap tbl' = nameMap t0"
    "pathList tbl' = ensure_wildcard_last (pathList t0)"
    by (simp_all add: tbl'_def t0_def addRoutes_unfold)
  from assms have inv: "table_inv tbl" by (simp add: built_def)
  have c1: "\<forall>p r. pathMap tbl p = Some r \<longrightarrow>
             pathMap one p = Some r \<and> count_list (pathList one) p = count_list (pathList tbl) p"
    using grows_keeps(1,3) [OF g1] by blast
  have c2: "\<forall>n r. nameMap tbl n = Some r \<longrightarrow> nameMap one n = Some r"
    using grows_keeps(2) [OF g1] by blast
  have c3: "\<forall>p r. pathMap tbl p = Some r \<longrightarrow>
               pathMap tbl' p = Some r \<and> count_list (pathList tbl') p = count_list (pathList tbl) p"
    using grows_keeps(1,3) [OF g0] by (simp add: t' count_list_ensure_wildcard_last)
  have c4: "\<forall>n r. nameMap tbl n = Some r \<longrightarrow> nameMap tbl' n = Some r"
    using grows_keeps(2) [OF g0] by (simp add: t')
  have c5: "built tbl'"
    unfolding tbl'_def addRoutes_def using inv by (intro createRouteMap_built) simp
  have c6: "match_lookup env tbl' raw currentRoute redirectedFrom
              = match_lookup env tbl raw currentRoute redirectedFrom"
    if "truthy (loc_name location)" "the (loc_name location) \<in> dom (nameMap tbl)"
  proof (rule match_lookup_by_name)
    from that(2) obtain r where "nameMap tbl (the (loc_name location)) = Some r" by blast
    with c4 have "nameMap tbl' (the (loc_name location)) = nameMap tbl (the (loc_name location))"
      by simp
    then show "nameMap tbl' = nameMap tbl \<or>
        nameMap tbl' (the (loc_name (normalizeLocation env raw currentRoute False)))
          = nameMap tbl (the (loc_name (normalizeLocation env raw currentRoute False)))"
      by (simp add: location_def)
    show "truthy (loc_name (normalizeLocation env raw currentRoute False))"
      using that(1) by (simp add: location_def)
  qed
  have c7: "match_lookup env tbl' raw currentRoute redirectedFrom
              = match_lookup env tbl raw currentRoute redirectedFrom"
    if nn: "\<not> truthy (loc_name location)"
      and new: "\<forall>p \<in> set (pathList tbl') - set (pathList tbl).
                  no_match env (pathMap tbl') (the (loc_path location)) p"
  proof (rule match_lookup_by_path)
    show "\<not> truthy (loc_name (normalizeLocation env raw currentRoute False))"
      using nn by (simp add: location_def)
    have "set (pathList tbl') = set (pathList t0)"
      by (auto simp: t' ensure_wildcard_last_eq)
    with new have "\<forall>p \<in> set (pathList t0) - set (pathList tbl).
                  no_match env (pathMap t0) (the (loc_path location)) p"
      by (simp add: t')
    from scan_after_addition [OF g0 assms this]
    show "scan_pathList env (pathMap tbl') (the (loc_path (normalizeLocation env raw currentRoute False)))
            (pathList tbl') (Some [])
        = scan_pathList env (pathMap tbl) (the (loc_path (normalizeLocation env raw currentRoute False)))
            (pathList tbl) (Some [])"
      by (simp add: t' location_def)
  qed
  have c8: "(truthy (ro_name re) \<longrightarrow> the (ro_name re) \<in> dom (nameMap tbl))
              \<longrightarrow> redirect_assert env tbl' re = redirect_assert env tbl re"
  proof
    assume "truthy (ro_name re) \<longrightarrow> the (ro_name re) \<in> dom (nameMap tbl)"
    with c4 show "redirect_assert env tbl' re = redirect_assert env tbl re"
      by (intro redirect_assert_kept) auto
  qed
  have c9: "match d env tbl' raw currentRoute redirectedFrom
              = match d env tbl raw currentRoute redirectedFrom"
    if same: "match_lookup env tbl' raw currentRoute redirectedFrom
               = match_lookup env tbl raw currentRoute redirectedFrom"
      and al: "\<forall>rcd l rf. match_lookup env tbl raw currentRoute redirectedFrom = Inr (rcd, l, rf)
                     \<longrightarrow> resolves_alike d env tbl tbl' rcd l rf"
    using same al by (intro resolves_alike_match) auto
  show ?thesis
    unfolding Let_def one_def [symmetric] tbl'_def [symmetric] location_def [symmetric]
    using c1 c2 c3 c4 c5 c6 c7 c8 c9 by blast
qed

section \<open>The example tables\<close>

lemmas add_simps = addRouteRecords_simps addRouteRecord_no_children Let_def
  empty_RouteMap_def normalizePath_def compileRouteRegex_def truthy_def aliasRoute_def
  alias_list_def

lemma createMatcher_eval:
  "addRouteRecords env routes empty_RouteMap = t \<Longrightarrow>
   createMatcher env routes = t\<lparr>pathList := ensure_wildcard_last (pathList t)\<rparr>"
  by (simp add: createMatcher_def createRouteMap_unfold)

lemma ex_chain_table:
  "pathList (createMatcher ex_env ex_chain_routes)
     = [''/a'', ''/b'', ''/d'', ''/c'', ''/p'', ''/q'', ''/r'']"
  "pathMap (createMatcher ex_env ex_chain_routes)
     = [''/a'' \<mapsto> ex_record ''/a'' None None (Some (RedirectString ''/b'')),
        ''/b'' \<mapsto> ex_record ''/b'' None None (Some (RedirectString ''/c'')),
        ''/d'' \<mapsto> ex_record ''/d'' None None None,
        ''/c'' \<mapsto> ex_record ''/c'' None (Some ''/d'') None,
        ''/p'' \<mapsto> ex_record ''/p'' None None (Some (RedirectString ''/q'')),
        ''/q'' \<mapsto> ex_record ''/q'' None None (Some (RedirectString ''/r'')),
        ''/r'' \<mapsto> ex_record ''/r'' None None None]"
  "nameMap (createMatcher ex_env ex_chain_routes) = Map.empty"
proof -
  have "addRouteRecords ex_env ex_chain_routes empty_RouteMap =
    \<lparr>pathList = [''/a'', ''/b'', ''/d'', ''/c'', ''/p'', ''/q'', ''/r''],
     pathMap = [''/a'' \<mapsto> ex_record ''/a'' None None (Some (RedirectString ''/b'')),
        ''/b'' \<mapsto> ex_record ''/b'' None None (Some (RedirectString ''/c'')),
        ''/d'' \<mapsto> ex_record ''/d'' None None None,
        ''/c'' \<mapsto> ex_record ''/c'' None (Some ''/d'') None,
        ''/p'' \<mapsto> ex_record ''/p'' None None (Some (RedirectString ''/q'')),
        ''/q'' \<mapsto> ex_record ''/q'' None None (Some (RedirectString ''/r'')),
        ''/r'' \<mapsto> ex_record ''/r'' None None None],
     nameMap = Map.empty\<rparr>"
    by (simp add: add_simps ex_simps ex_chain_routes_def)
  note t = createMatcher_eval [OF this]
  show "pathList (createMatcher ex_env ex_chain_routes)
     = [''/a'', ''/b'', ''/d'', ''/c'', ''/p'', ''/q'', ''/r'']"
    by (simp add: t ensure_wildcard_last_eq)
  show "pathMap (createMatcher ex_env ex_chain_routes)
     = [''/a'' \<mapsto> ex_record ''/a'' None None (Some (RedirectString ''/b'')),
        ''/b'' \<mapsto> ex_record ''/b'' None None (Some (RedirectString ''/c'')),
        ''/d'' \<mapsto> ex_record ''/d'' None None None,
        ''/c'' \<mapsto> ex_record ''/c'' None (Some ''/d'') None,
        ''/p'' \<mapsto> ex_record ''/p'' None None (Some (RedirectString ''/q'')),
        ''/q'' \<mapsto> ex_record ''/q'' None None (Some (RedirectString ''/r'')),
        ''/r'' \<mapsto> ex_record ''/r'' None None None]"
    by (simp add: t)
  show "nameMap (createMatcher ex_env ex_chain_routes) = Map.empty"
    by (simp add: t)
qed


lemma ex_user_table:
  "pathList (createMatcher ex_env ex_user_routes) = [''/user/:id/:tab'']"
  "pathMap (createMatcher ex_env ex_user_routes)
     = [''/user/:id/:tab'' \<mapsto> ex_record ''/user/:id/:tab'' (Some ''user'') None None]"
  "nameMap (createMatcher ex_env ex_user_routes)
     = [''user'' \<mapsto> ex_record ''/user/:id/:tab'' (Some ''user'') None None]"
  by (simp_all add: build_simps ex_simps ex_user_routes_def)

lemma ex_bad_table:
  "pathList (createMatcher ex_env ex_bad_routes) = [''/bad'']"
  "pathMap (createMatcher ex_env ex_bad_routes)
     = [''/bad'' \<mapsto> ex_record ''/bad'' None None (Some (RedirectFunction 0))]"
  "nameMap (createMatcher ex_env ex_bad_routes) = Map.empty"
  by (simp_all add: build_simps ex_simps ex_bad_routes_def)

lemmas lookup_simps = match_lookup_def matchRoute_def param_key_def Let_def truthy_def
  ex_env_fields ex_Regexp_def ex_str_match_def ex_decodeURIComponent_def ex_normalizeLocation_def
  ex_record_def ex_location_def is_param_def

lemmas hop_simps = hop_def redirect_value_def redirect_target_def redirect_truthy_def
  redirect_assert_def
  resolveRecordPath_def path_only_def ex_resolvePath_def ex_fillParams_def

lemma chain_lookup:
  "match_lookup ex_env (createMatcher ex_env ex_chain_routes) (RawString ''/a'') None None
     = Inr (Some (ex_record ''/a'' None None (Some (RedirectString ''/b''))),
            (ex_location ''/a'')\<lparr>loc_params := Some []\<rparr>, None)"
  "match_lookup ex_env (createMatcher ex_env ex_chain_routes) (RawString ''/p'') None None
     = Inr (Some (ex_record ''/p'' None None (Some (RedirectString ''/q''))),
            (ex_location ''/p'')\<lparr>loc_params := Some []\<rparr>, None)"
  "match_lookup ex_env (createMatcher ex_env ex_chain_routes) (RawObject (ex_location ''/d'')) None None
     = Inr (Some (ex_record ''/d'' None None None),
            (ex_location ''/d'')\<lparr>loc_params := Some []\<rparr>, None)"
  by (simp_all add: lookup_simps ex_chain_table)

lemma chain_hops:
  "hop ex_env (createMatcher ex_env ex_chain_routes) ((ex_location ''/a'')\<lparr>loc_params := Some []\<rparr>)
     (ex_record ''/a'' None None (Some (RedirectString ''/b'')))
     = Some (ex_record ''/b'' None None (Some (RedirectString ''/c'')),
             (ex_location ''/b'')\<lparr>loc_params := Some []\<rparr>)"
  "hop ex_env (createMatcher ex_env ex_chain_routes) ((ex_location ''/a'')\<lparr>loc_params := Some []\<rparr>)
     (ex_record ''/b'' None None (Some (RedirectString ''/c'')))
     = Some (ex_record ''/c'' None (Some ''/d'') None,
             (ex_location ''/c'')\<lparr>loc_params := Some []\<rparr>)"
  "hop ex_env (createMatcher ex_env ex_chain_routes) ((ex_location ''/p'')\<lparr>loc_params := Some []\<rparr>)
     (ex_record ''/p'' None None (Some (RedirectString ''/q'')))
     = Some (ex_record ''/q'' None None (Some (RedirectString ''/r'')),
             (ex_location ''/q'')\<lparr>loc_params := Some []\<rparr>)"
  "hop ex_env (createMatcher ex_env ex_chain_routes) ((ex_location ''/p'')\<lparr>loc_params := Some []\<rparr>)
     (ex_record ''/q'' None None (Some (RedirectString ''/r'')))
     = Some (ex_record ''/r'' None None None,
             (ex_location ''/r'')\<lparr>loc_params := Some []\<rparr>)"
  by (simp_all add: hop_simps lookup_simps ex_chain_table)



lemma ex_named_table:
  "pathList (createMatcher ex_env ex_named_routes) = [''/old'']"
  "pathMap (createMatcher ex_env ex_named_routes)
     = [''/old'' \<mapsto> ex_record ''/old'' None None
          (Some (RedirectObject \<lparr>ro_name = Some ''nowhere'', ro_path = None, ro_query = None,
                                  ro_hash = None, ro_params = None\<rparr>))]"
  "nameMap (createMatcher ex_env ex_named_routes) = Map.empty"
  by (simp_all add: build_simps ex_simps ex_named_routes_def)

lemma ex_param_table:
  "pathList (createMatcher ex_env ex_param_routes) = [''/a/:x'', ''/b/:y'', ''/c/:z'']"
  "pathMap (createMatcher ex_env ex_param_routes)
     = [''/a/:x'' \<mapsto> ex_record ''/a/:x'' None None (Some (RedirectString ''/b/:x'')),
        ''/b/:y'' \<mapsto> ex_record ''/b/:y'' None None (Some (RedirectString ''/c/:y'')),
        ''/c/:z'' \<mapsto> ex_record ''/c/:z'' None None None]"
  "nameMap (createMatcher ex_env ex_param_routes) = Map.empty"
proof -
  have "addRouteRecords ex_env ex_param_routes empty_RouteMap =
    \<lparr>pathList = [''/a/:x'', ''/b/:y'', ''/c/:z''],
     pathMap = [''/a/:x'' \<mapsto> ex_record ''/a/:x'' None None (Some (RedirectString ''/b/:x'')),
        ''/b/:y'' \<mapsto> ex_record ''/b/:y'' None None (Some (RedirectString ''/c/:y'')),
        ''/c/:z'' \<mapsto> ex_record ''/c/:z'' None None None],
     nameMap = Map.empty\<rparr>"
    by (simp add: add_simps ex_simps ex_param_routes_def)
  note t = createMatcher_eval [OF this]
  show "pathList (createMatcher ex_env ex_param_routes) = [''/a/:x'', ''/b/:y'', ''/c/:z'']"
    by (simp add: t ensure_wildcard_last_eq)
  show "pathMap (createMatcher ex_env ex_param_routes)
     = [''/a/:x'' \<mapsto> ex_record ''/a/:x'' None None (Some (RedirectString ''/b/:x'')),
        ''/b/:y'' \<mapsto> ex_record ''/b/:y'' None None (Some (RedirectString ''/c/:y'')),
        ''/c/:z'' \<mapsto> ex_record ''/c/:z'' None None None]"
    by (simp add: t)
  show "nameMap (createMatcher ex_env ex_param_routes) = Map.empty"
    by (simp add: t)
qed

lemma ex_inherit_table:
  "pathList (createMatcher ex_env ex_inherit_routes) = [''/x/:toString'']"
  "pathMap (createMatcher ex_env ex_inherit_routes)
     = [''/x/:toString'' \<mapsto> ex_record ''/x/:toString'' (Some ''x'') None None]"
  "nameMap (createMatcher ex_env ex_inherit_routes)
     = [''x'' \<mapsto> ex_record ''/x/:toString'' (Some ''x'') None None]"
  by (simp_all add: build_simps ex_simps ex_inherit_routes_def)

lemma param_lookup:
  "match_lookup ex_env (createMatcher ex_env ex_param_routes) (RawString ''/a/1'') None None
     = Inr (Some (ex_record ''/a/:x'' None None (Some (RedirectString ''/b/:x''))),
            (ex_location ''/a/1'')\<lparr>loc_params := Some [(''x'', Some ''1'')]\<rparr>, None)"
  "match_lookup ex_env (createMatcher ex_env ex_param_routes) (RawString ''/b/1'') None None
     = Inr (Some (ex_record ''/b/:y'' None None (Some (RedirectString ''/c/:y''))),
            (ex_location ''/b/1'')\<lparr>loc_params := Some [(''y'', Some ''1'')]\<rparr>, None)"
  "match_lookup ex_env (createMatcher ex_env ex_param_routes) (RawString ''/c/1'') None None
     = Inr (Some (ex_record ''/c/:z'' None None None),
            (ex_location ''/c/1'')\<lparr>loc_params := Some [(''z'', Some ''1'')]\<rparr>, None)"
  by (simp_all add: lookup_simps ex_param_table)

lemma param_hops:
  "hop ex_env (createMatcher ex_env ex_param_routes)
     ((ex_location ''/a/1'')\<lparr>loc_params := Some [(''x'', Some ''1'')]\<rparr>)
     (ex_record ''/a/:x'' None None (Some (RedirectString ''/b/:x'')))
     = Some (ex_record ''/b/:y'' None None (Some (RedirectString ''/c/:y'')),
             (ex_location ''/b/1'')\<lparr>loc_params := Some [(''y'', Some ''1'')]\<rparr>)"
  "hop ex_env (createMatcher ex_env ex_param_routes)
     ((ex_location ''/b/1'')\<lparr>loc_params := Some [(''y'', Some ''1'')]\<rparr>)
     (ex_record ''/b/:y'' None None (Some (RedirectString ''/c/:y'')))
     = Some (ex_record ''/c/:z'' None None None,
             (ex_location ''/c/1'')\<lparr>loc_params := Some [(''z'', Some ''1'')]\<rparr>)"
  "hop ex_env (createMatcher ex_env ex_param_routes)
     ((ex_location ''/a/1'')\<lparr>loc_params := Some [(''x'', Some ''1'')]\<rparr>)
     (ex_record ''/b/:y'' None None (Some (RedirectString ''/c/:y''))) = None"
  by (simp_all add: hop_simps lookup_simps ex_param_table)



section \<open>Examples for the matcher\<close>

theorem match_returns_route_witness:
  "match 0 ex_env (createMatcher ex_env ex_user_routes)
      (RawObject (ex_user_bare\<lparr>loc_name := Some ''nobody''\<rparr>)) None None
     = Inr (createRoute ex_env None (ex_user_bare\<lparr>loc_name := Some ''nobody'', loc_normalized := True\<rparr>) None)
   \<and> match 0 ex_env (createMatcher ex_env ex_user_routes) (RawString ''/zzz'') None None
     = Inr (createRoute ex_env None ((ex_location ''/zzz'')\<lparr>loc_params := Some []\<rparr>) None)
   \<and> match (Suc 0) ex_env (createMatcher ex_env ex_bad_routes) (RawString ''/bad'') None None
     = Inr (createRoute ex_env None ((ex_location ''/bad'')\<lparr>loc_params := Some []\<rparr>) None)
   \<and> route_matched (createRoute ex_env None ((ex_location ''/bad'')\<lparr>loc_params := Some []\<rparr>) None) = []
   \<and> match (Suc 0) ex_env (createMatcher ex_env ex_named_routes) (RawString ''/old'') None None
     = Inl AssertionFailed
   \<and> match (Suc 0) (ex_env\<lparr>dev := False\<rparr>) (createMatcher ex_env ex_named_routes)
        (RawString ''/old'') None None
     = Inr (createRoute (ex_env\<lparr>dev := False\<rparr>) None
              \<lparr>loc_normalized = True, loc_name = Some ''nowhere'', loc_path = None,
               loc_query = None, loc_hash = None, loc_params = Some []\<rparr> None)
   \<and> (\<exists>location'. match 0 ex_env (createMatcher ex_env ex_user_routes) (RawObject ex_user_bare) None None
          = Inr (createRoute ex_env (Some (ex_record ''/user/:id/:tab'' (Some ''user'') None None))
                   location' None)
        \<and> route_path (createRoute ex_env (Some (ex_record ''/user/:id/:tab'' (Some ''user'') None None))
                   location' None) = ''/''
        \<and> route_matched (createRoute ex_env (Some (ex_record ''/user/:id/:tab'' (Some ''user'') None None))
                   location' None)
            = [ex_record ''/user/:id/:tab'' (Some ''user'') None None])"
proof -
  let ?u = "createMatcher ex_env ex_user_routes"
  let ?b = "createMatcher ex_env ex_bad_routes"
  let ?n = "createMatcher ex_env ex_named_routes"
  let ?p = "ex_env\<lparr>dev := False\<rparr>"
  let ?r = "ex_record ''/user/:id/:tab'' (Some ''user'') None None"
  let ?rb = "ex_record ''/bad'' None None (Some (RedirectFunction 0))"
  let ?re = "\<lparr>ro_name = Some ''nowhere'', ro_path = None, ro_query = None,
              ro_hash = None, ro_params = None\<rparr>"
  let ?rn = "ex_record ''/old'' None None (Some (RedirectObject ?re))"
  let ?lo = "(ex_location ''/old'')\<lparr>loc_params := Some []\<rparr>"
  let ?tg = "\<lparr>loc_normalized = True, loc_name = Some ''nowhere'', loc_path = None,
              loc_query = None, loc_hash = None, loc_params = Some []\<rparr>"
  have n1: "normalizeLocation ex_env (RawObject (ex_user_bare\<lparr>loc_name := Some ''nobody''\<rparr>)) None False
      = ex_user_bare\<lparr>loc_name := Some ''nobody'', loc_normalized := True\<rparr>"
    by (simp add: ex_env_fields ex_normalizeLocation_def)
  have c1: "match 0 ex_env ?u (RawObject (ex_user_bare\<lparr>loc_name := Some ''nobody''\<rparr>)) None None
     = Inr (createRoute ex_env None (ex_user_bare\<lparr>loc_name := Some ''nobody'', loc_normalized := True\<rparr>) None)"
    using match_returns_route [where env = ex_env and tbl = ?u and d = 0 and currentRoute = None
        and redirectedFrom = None and raw = "RawObject (ex_user_bare\<lparr>loc_name := Some ''nobody''\<rparr>)",
        unfolded Let_def n1, THEN conjunct1, rule_format]
    by (simp add: ex_user_bare_def truthy_def ex_user_table)
  have n2: "normalizeLocation ex_env (RawString ''/zzz'') None False = ex_location ''/zzz''"
    by (simp add: ex_env_fields ex_normalizeLocation_def ex_location_def)
  have c2: "match 0 ex_env ?u (RawString ''/zzz'') None None
     = Inr (createRoute ex_env None ((ex_location ''/zzz'')\<lparr>loc_params := Some []\<rparr>) None)"
    using match_returns_route [where env = ex_env and tbl = ?u and d = 0 and currentRoute = None
        and redirectedFrom = None and raw = "RawString ''/zzz''",
        unfolded Let_def n2, THEN conjunct2, THEN conjunct1, rule_format]
    by (simp add: ex_location_def truthy_def ex_user_table no_match_def ex_record_def
          ex_Regexp_def ex_env_fields ex_str_match_def is_param_def)
  have lb: "match_lookup ex_env ?b (RawString ''/bad'') None None
      = Inr (Some ?rb, (ex_location ''/bad'')\<lparr>loc_params := Some []\<rparr>, None)"
    by (simp add: lookup_simps ex_bad_table)
  have mal: "malformed_redirect ex_env ?rb
      (case None of None \<Rightarrow> (ex_location ''/bad'')\<lparr>loc_params := Some []\<rparr> | Some l \<Rightarrow> l)"
    by (simp add: malformed_redirect_def redirect_value_def ex_record_def ex_env_fields)
  have rt: "redirect_truthy (rec_redirect ?rb)"
    by (simp add: redirect_truthy_def ex_record_def)
  have c3: "match (Suc 0) ex_env ?b (RawString ''/bad'') None None
     = Inr (createRoute ex_env None ((ex_location ''/bad'')\<lparr>loc_params := Some []\<rparr>) None)"
    using match_returns_route [where env = ex_env and tbl = ?b and d = 0 and currentRoute = None
        and redirectedFrom = None and raw = "RawString ''/bad''",
        unfolded Let_def, THEN conjunct2, THEN conjunct2, THEN conjunct2, THEN conjunct1,
        rule_format, OF lb rt mal]
    by simp
  have ln: "match_lookup ex_env ?n (RawString ''/old'') None None = Inr (Some ?rn, ?lo, None)"
    by (simp add: lookup_simps ex_named_table)
  have lp: "match_lookup ?p ?n (RawString ''/old'') None None = Inr (Some ?rn, ?lo, None)"
    by (simp add: lookup_simps ex_named_table)
  have rtn: "redirect_truthy (rec_redirect ?rn)"
    by (simp add: redirect_truthy_def ex_record_def)
  have rv: "redirect_value ex_env ?rn (case None of None \<Rightarrow> ?lo | Some l \<Rightarrow> l) = Some ?re"
    "redirect_value ?p ?rn (case None of None \<Rightarrow> ?lo | Some l \<Rightarrow> l) = Some ?re"
    by (simp_all add: redirect_value_def ex_record_def)
  have tg: "redirect_target ex_env ?rn (case None of None \<Rightarrow> ?lo | Some l \<Rightarrow> l) ?re = Some ?tg"
    "redirect_target ?p ?rn (case None of None \<Rightarrow> ?lo | Some l \<Rightarrow> l) ?re = Some ?tg"
    by (simp_all add: redirect_target_def truthy_def ex_location_def)
  have tn: "truthy (ro_name ?re)" by (simp add: truthy_def)
  have nn: "nameMap ?n (the (ro_name ?re)) = None" by (simp add: ex_named_table)
  have c5: "match (Suc 0) ex_env ?n (RawString ''/old'') None None = Inl AssertionFailed"
    by (rule match_returns_route [where env = ex_env and tbl = ?n and d = 0 and currentRoute = None
        and redirectedFrom = None and raw = "RawString ''/old''",
        unfolded Let_def, THEN conjunct2, THEN conjunct2, THEN conjunct2, THEN conjunct2,
        THEN conjunct1, rule_format, OF ln rtn rv(1) tg(1) tn nn, THEN conjunct1, rule_format])
       (simp_all add: ex_env_fields)
  have c6: "match (Suc 0) ?p ?n (RawString ''/old'') None None
      = Inr (createRoute ?p None ?tg None)"
    by (rule match_returns_route [where env = ?p and tbl = ?n and d = 0 and currentRoute = None
        and redirectedFrom = None and raw = "RawString ''/old''",
        unfolded Let_def, THEN conjunct2, THEN conjunct2, THEN conjunct2, THEN conjunct2,
        THEN conjunct1, rule_format, OF lp rtn rv(2) tg(2) tn nn, THEN conjunct2, rule_format])
       (simp_all add: ex_env_fields ex_normalizeLocation_def)
  have n4: "normalizeLocation ex_env (RawObject ex_user_bare) None False
      = ex_user_bare\<lparr>loc_normalized := True\<rparr>"
    by (simp add: ex_env_fields ex_normalizeLocation_def)
  have nr: "normal_record ?r"
    by (simp add: normal_record_def ex_record_def redirect_truthy_def truthy_def)
  have fm: "formatMatch ?r = [?r]" by (simp add: ex_record_def)
  have c4: "\<exists>location'. match 0 ex_env ?u (RawObject ex_user_bare) None None
          = Inr (createRoute ex_env (Some ?r) location' None)
        \<and> loc_path location' = Some (fillParams ex_env (rec_path ?r) (loc_params location'))
        \<and> route_path (createRoute ex_env (Some ?r) location' None)
            = (if fillParams ex_env (rec_path ?r) (loc_params location') = [] then ''/''
               else fillParams ex_env (rec_path ?r) (loc_params location'))
        \<and> route_matched (createRoute ex_env (Some ?r) location' None) = formatMatch ?r
        \<and> formatMatch ?r \<noteq> []"
    by (rule match_returns_route [where env = ex_env and tbl = ?u and d = 0 and currentRoute = None
        and redirectedFrom = None and raw = "RawObject ex_user_bare",
        unfolded Let_def n4, THEN conjunct2, THEN conjunct2, THEN conjunct2, THEN conjunct2,
        THEN conjunct2, THEN conjunct1, rule_format])
       (simp_all add: ex_user_bare_def truthy_def ex_user_table nr)
  have lk: "match_lookup ex_env ?u (RawObject ex_user_bare) None None
      = Inr (Some ?r, ex_user_bare\<lparr>loc_normalized := True, loc_params := Some [], loc_path := Some []\<rparr>, None)"
    by (simp add: match_lookup_def Let_def truthy_def ex_env_fields ex_normalizeLocation_def
          ex_user_bare_def ex_user_table ex_fillParams_def is_param_def ex_record_def)
  have nr': "case Some ?r of None \<Rightarrow> True | Some r \<Rightarrow> normal_record r" using nr by simp
  have c4': "\<exists>location'. match 0 ex_env ?u (RawObject ex_user_bare) None None
          = Inr (createRoute ex_env (Some ?r) location' None)
        \<and> route_path (createRoute ex_env (Some ?r) location' None) = ''/''
        \<and> route_matched (createRoute ex_env (Some ?r) location' None) = [?r]"
  proof -
    from c4 obtain location' where l:
      "match 0 ex_env ?u (RawObject ex_user_bare) None None
          = Inr (createRoute ex_env (Some ?r) location' None)"
      "route_matched (createRoute ex_env (Some ?r) location' None) = formatMatch ?r" by blast
    from l(1) match_normal_or_none [OF lk nr', of 0]
    have "createRoute ex_env (Some ?r) location' None
        = createRoute ex_env (Some ?r)
            (ex_user_bare\<lparr>loc_normalized := True, loc_params := Some [], loc_path := Some []\<rparr>) None"
      by simp
    then have "route_path (createRoute ex_env (Some ?r) location' None) = ''/''"
      by (simp add: createRoute_def truthy_def)
    with l fm show ?thesis by auto
  qed
  from c1 c2 c3 c5 c6 c4' show ?thesis
    by (simp add: createRoute_matched)
qed

theorem match_raises_counterexample:
  "dev ex_env
   \<and> nameMap (createMatcher ex_env ex_named_routes) ''nowhere'' = None
   \<and> match (Suc 0) ex_env (createMatcher ex_env ex_named_routes) (RawString ''/old'') None None
       = Inl AssertionFailed
   \<and> fillParams ex_env ''/user/:id/:tab'' (Some []) = []
   \<and> match 0 ex_env (createMatcher ex_env ex_user_routes) (RawObject ex_user_bare) None None
     = Inr (createRoute ex_env (Some (ex_record ''/user/:id/:tab'' (Some ''user'') None None))
              (ex_user_bare\<lparr>loc_normalized := True, loc_params := Some [], loc_path := Some []\<rparr>) None)
   \<and> route_matched (createRoute ex_env (Some (ex_record ''/user/:id/:tab'' (Some ''user'') None None))
              (ex_user_bare\<lparr>loc_normalized := True, loc_params := Some [], loc_path := Some []\<rparr>) None)
       = [ex_record ''/user/:id/:tab'' (Some ''user'') None None]"
proof -
  let ?u = "createMatcher ex_env ex_user_routes"
  let ?n = "createMatcher ex_env ex_named_routes"
  let ?r = "ex_record ''/user/:id/:tab'' (Some ''user'') None None"
  let ?re = "\<lparr>ro_name = Some ''nowhere'', ro_path = None, ro_query = None,
              ro_hash = None, ro_params = None\<rparr>"
  let ?rn = "ex_record ''/old'' None None (Some (RedirectObject ?re))"
  let ?lo = "(ex_location ''/old'')\<lparr>loc_params := Some []\<rparr>"
  let ?tg = "\<lparr>loc_normalized = True, loc_name = Some ''nowhere'', loc_path = None,
              loc_query = None, loc_hash = None, loc_params = Some []\<rparr>"
  have ln: "match_lookup ex_env ?n (RawString ''/old'') None None = Inr (Some ?rn, ?lo, None)"
    by (simp add: lookup_simps ex_named_table)
  have rtn: "redirect_truthy (rec_redirect ?rn)"
    by (simp add: redirect_truthy_def ex_record_def)
  have rv: "redirect_value ex_env ?rn (case None of None \<Rightarrow> ?lo | Some l \<Rightarrow> l) = Some ?re"
    by (simp add: redirect_value_def ex_record_def)
  have tg: "redirect_target ex_env ?rn (case None of None \<Rightarrow> ?lo | Some l \<Rightarrow> l) ?re = Some ?tg"
    by (simp add: redirect_target_def truthy_def ex_location_def)
  have ra: "redirect_assert ex_env ?n ?re = Some AssertionFailed"
    by (simp add: redirect_assert_def truthy_def ex_env_fields ex_named_table)
  have a: "match (Suc 0) ex_env ?n (RawString ''/old'') None None = Inl AssertionFailed"
    by (simp only: match_unfold ln sum.case prod.case
          createRoute_internal_by_name [OF rtn rv tg] ra option.case)
  have f: "fillParams ex_env ''/user/:id/:tab'' (Some []) = []"
    by (simp add: ex_env_fields ex_fillParams_def is_param_def)
  have lk: "match_lookup ex_env ?u (RawObject ex_user_bare) None None
      = Inr (Some ?r, ex_user_bare\<lparr>loc_normalized := True, loc_params := Some [], loc_path := Some []\<rparr>, None)"
    by (simp add: match_lookup_def Let_def truthy_def ex_env_fields ex_normalizeLocation_def
          ex_user_bare_def ex_user_table ex_fillParams_def is_param_def ex_record_def)
  have nr: "case Some ?r of None \<Rightarrow> True | Some r \<Rightarrow> normal_record r"
    by (simp add: normal_record_def ex_record_def redirect_truthy_def truthy_def)
  have fm: "formatMatch ?r = [?r]" by (simp add: ex_record_def)
  from a f match_normal_or_none [OF lk nr] fm show ?thesis
    by (simp add: createRoute_matched ex_env_fields ex_named_table)
qed

theorem redirect_chain_reports_original_witness:
  "redirect_chain ex_env (createMatcher ex_env ex_chain_routes)
     ((ex_location ''/p'')\<lparr>loc_params := Some []\<rparr>)
     [ex_record ''/p'' None None (Some (RedirectString ''/q'')),
      ex_record ''/q'' None None (Some (RedirectString ''/r''))]
     (ex_record ''/r'' None None None) ((ex_location ''/r'')\<lparr>loc_params := Some []\<rparr>)
   \<and> normal_record (ex_record ''/r'' None None None)
   \<and> match (Suc (Suc 0)) ex_env (createMatcher ex_env ex_chain_routes) (RawString ''/p'') None None
       = Inr (createRoute ex_env (Some (ex_record ''/r'' None None None))
                ((ex_location ''/r'')\<lparr>loc_params := Some []\<rparr>)
                (Some ((ex_location ''/p'')\<lparr>loc_params := Some []\<rparr>)))
   \<and> route_redirectedFrom (createRoute ex_env (Some (ex_record ''/r'' None None None))
                ((ex_location ''/r'')\<lparr>loc_params := Some []\<rparr>)
                (Some ((ex_location ''/p'')\<lparr>loc_params := Some []\<rparr>)))
       = Some ''/p''"
proof -
  let ?t = "createMatcher ex_env ex_chain_routes"
  let ?orig = "(ex_location ''/p'')\<lparr>loc_params := Some []\<rparr>"
  have chain: "redirect_chain ex_env ?t ?orig
     (ex_record ''/p'' None None (Some (RedirectString ''/q''))
      # [ex_record ''/q'' None None (Some (RedirectString ''/r''))])
     (ex_record ''/r'' None None None) ((ex_location ''/r'')\<lparr>loc_params := Some []\<rparr>)"
    by (simp add: chain_hops)
  have n: "normal_record (ex_record ''/r'' None None None)"
    by (simp add: normal_record_def ex_record_def redirect_truthy_def truthy_def)
  have o: "?orig = (case None of None \<Rightarrow> ?orig | Some l \<Rightarrow> l)" by simp
  have len: "length (ex_record ''/p'' None None (Some (RedirectString ''/q''))
      # [ex_record ''/q'' None None (Some (RedirectString ''/r''))]) \<le> Suc (Suc 0)" by simp
  note T = redirect_chain_reports_original [OF chain_lookup(2) o chain n len]
  have fp: "getFullPath ex_env ?orig = ''/p''"
    by (simp add: ex_env_fields ex_getFullPath_def ex_location_def)
  from T chain n fp show ?thesis by simp
qed


theorem redirect_chain_renamed_param_counterexample:
  "match_lookup ex_env (createMatcher ex_env ex_param_routes) (RawString ''/a/1'') None None
     = Inr (Some (ex_record ''/a/:x'' None None (Some (RedirectString ''/b/:x''))),
            (ex_location ''/a/1'')\<lparr>loc_params := Some [(''x'', Some ''1'')]\<rparr>, None)
   \<and> hop ex_env (createMatcher ex_env ex_param_routes)
       ((ex_location ''/a/1'')\<lparr>loc_params := Some [(''x'', Some ''1'')]\<rparr>)
       (ex_record ''/a/:x'' None None (Some (RedirectString ''/b/:x'')))
     = Some (ex_record ''/b/:y'' None None (Some (RedirectString ''/c/:y'')),
             (ex_location ''/b/1'')\<lparr>loc_params := Some [(''y'', Some ''1'')]\<rparr>)
   \<and> hop ex_env (createMatcher ex_env ex_param_routes)
       ((ex_location ''/b/1'')\<lparr>loc_params := Some [(''y'', Some ''1'')]\<rparr>)
       (ex_record ''/b/:y'' None None (Some (RedirectString ''/c/:y'')))
     = Some (ex_record ''/c/:z'' None None None,
             (ex_location ''/c/1'')\<lparr>loc_params := Some [(''z'', Some ''1'')]\<rparr>)
   \<and> normal_record (ex_record ''/c/:z'' None None None)
   \<and> match (Suc (Suc (Suc 0))) ex_env (createMatcher ex_env ex_param_routes)
        (RawString ''/a/1'') None None
       = Inr (createRoute ex_env None (ex_location []) None)
   \<and> route_matched (createRoute ex_env None (ex_location []) None) = []
   \<and> route_redirectedFrom (createRoute ex_env None (ex_location []) None) = None"
proof -
  let ?t = "createMatcher ex_env ex_param_routes"
  let ?la = "(ex_location ''/a/1'')\<lparr>loc_params := Some [(''x'', Some ''1'')]\<rparr>"
  let ?lb = "(ex_location ''/b/1'')\<lparr>loc_params := Some [(''y'', Some ''1'')]\<rparr>"
  let ?ra = "ex_record ''/a/:x'' None None (Some (RedirectString ''/b/:x''))"
  let ?rb = "ex_record ''/b/:y'' None None (Some (RedirectString ''/c/:y''))"
  let ?rc = "ex_record ''/c/:z'' None None None"
  have nc: "normal_record ?rc"
    by (simp add: normal_record_def ex_record_def redirect_truthy_def truthy_def)
  have s1: "createRoute_internal (Suc (Suc (Suc 0))) ex_env ?t (Some ?ra) ?la None
      = createRoute_internal (Suc (Suc 0)) ex_env ?t (Some ?rb) ?lb (Some ?la)"
    using createRoute_internal_hop [where env = ex_env and tbl = ?t and rf = None
        and location = ?la and r = ?ra and r' = ?rb and location' = ?lb and d = "Suc (Suc 0)"]
    by (simp add: param_hops)
  have rt: "redirect_truthy (rec_redirect ?rb)"
    by (simp add: redirect_truthy_def ex_record_def)
  have rv: "redirect_value ex_env ?rb (case Some ?la of None \<Rightarrow> ?lb | Some l \<Rightarrow> l)
      = Some (path_only ''/c/:y'')"
    by (simp add: redirect_value_def ex_record_def)
  have tg: "redirect_target ex_env ?rb (case Some ?la of None \<Rightarrow> ?lb | Some l \<Rightarrow> l)
      (path_only ''/c/:y'') = Some (ex_location [])"
    by (simp add: redirect_target_def path_only_def truthy_def resolveRecordPath_def ex_record_def
          ex_env_fields ex_resolvePath_def ex_fillParams_def is_param_def ex_location_def)
  have ra: "redirect_assert ex_env ?t (path_only ''/c/:y'') = None"
    by (simp add: redirect_assert_def path_only_def truthy_def)
  have lk: "match_lookup ex_env ?t (RawObject (ex_location [])) None (Some ?la)
      = Inr (None, ex_location [], None)"
    by (simp add: match_lookup_def Let_def truthy_def ex_env_fields ex_normalizeLocation_def
          ex_location_def)
  have none: "case None of None \<Rightarrow> True | Some r \<Rightarrow> normal_record r" by simp
  have s2: "createRoute_internal (Suc (Suc 0)) ex_env ?t (Some ?rb) ?lb (Some ?la)
      = Inr (createRoute ex_env None (ex_location []) None)"
    by (simp only: createRoute_internal_by_name [OF rt rv tg] ra option.case
          match_normal_or_none [OF lk none])
  have m: "match (Suc (Suc (Suc 0))) ex_env ?t (RawString ''/a/1'') None None
      = Inr (createRoute ex_env None (ex_location []) None)"
    by (simp only: match_unfold param_lookup(1) sum.case prod.case s1 s2)
  from param_lookup(1) param_hops(1,2) nc m show ?thesis
    by (simp add: createRoute_matched)
qed

text \<open>
  C6, on a parameter whose name every object inherits. The route \<^verbatim>\<open>/x/:toString\<close> is named
  \<^verbatim>\<open>x\<close>, the current route is on it with the param \<^verbatim>\<open>toString\<close>, and the location names \<^verbatim>\<open>x\<close>
  without params. The param is required and the location does not give it, yet
  \<^verbatim>\<open>key in location.params\<close> holds of the inherited name: nothing is copied, and the path is
  filled from no params.
\<close>

theorem backfill_skips_inherited_name:
  "nameMap (createMatcher ex_env ex_inherit_routes) ''x''
     = Some (ex_record ''/x/:toString'' (Some ''x'') None None)
   \<and> map key_name (filter (\<lambda>key. \<not> key_optional key)
        (re_keys (rec_regex (ex_record ''/x/:toString'' (Some ''x'') None None))))
     = [KName ''toString'']
   \<and> route_params ex_inherit_route = [(''toString'', Some ''1'')]
   \<and> loc_params (normalizeLocation ex_env (RawObject ex_inherit_target) (Some ex_inherit_route) False)
     = None
   \<and> match_lookup ex_env (createMatcher ex_env ex_inherit_routes) (RawObject ex_inherit_target)
        (Some ex_inherit_route) None
     = Inr (Some (ex_record ''/x/:toString'' (Some ''x'') None None),
            \<lparr>loc_normalized = True, loc_name = Some ''x'', loc_path = Some [],
             loc_query = None, loc_hash = None, loc_params = Some []\<rparr>,
            None)"
proof -
  let ?t = "createMatcher ex_env ex_inherit_routes"
  have 1: "nameMap ?t ''x'' = Some (ex_record ''/x/:toString'' (Some ''x'') None None)"
    by (simp add: ex_inherit_table)
  have 2: "map key_name (filter (\<lambda>key. \<not> key_optional key)
        (re_keys (rec_regex (ex_record ''/x/:toString'' (Some ''x'') None None))))
     = [KName ''toString'']"
    by (simp add: ex_record_def ex_Regexp_def is_param_def)
  have 3: "route_params ex_inherit_route = [(''toString'', Some ''1'')]"
    by (simp add: ex_inherit_route_def)
  have 4: "loc_params (normalizeLocation ex_env (RawObject ex_inherit_target)
              (Some ex_inherit_route) False) = None"
    by (simp add: ex_env_fields ex_normalizeLocation_def ex_inherit_target_def)
  have 5: "match_lookup ex_env ?t (RawObject ex_inherit_target) (Some ex_inherit_route) None
     = Inr (Some (ex_record ''/x/:toString'' (Some ''x'') None None),
            \<lparr>loc_normalized = True, loc_name = Some ''x'', loc_path = Some [],
             loc_query = None, loc_hash = None, loc_params = Some []\<rparr>,
            None)"
    by (simp add: match_lookup_def backfill_def key_in_def Object_prototype_def ex_simps Let_def
          truthy_def ex_inherit_target_def ex_inherit_route_def ex_inherit_table)
  from 1 2 3 4 5 show ?thesis by simp
qed

lemma redirect_chain_to_alias:
  "redirect_chain ex_env (createMatcher ex_env ex_chain_routes)
     ((ex_location ''/a'')\<lparr>loc_params := Some []\<rparr>)
     [ex_record ''/a'' None None (Some (RedirectString ''/b'')),
      ex_record ''/b'' None None (Some (RedirectString ''/c''))]
     (ex_record ''/c'' None (Some ''/d'') None) ((ex_location ''/c'')\<lparr>loc_params := Some []\<rparr>)
   \<and> \<not> redirect_truthy (rec_redirect (ex_record ''/c'' None (Some ''/d'') None))
   \<and> match (Suc (Suc (Suc 0))) ex_env (createMatcher ex_env ex_chain_routes) (RawString ''/a'') None None
       = Inr (createRoute ex_env (Some (ex_record ''/d'' None None None))
                ((ex_location ''/c'')\<lparr>loc_params := Some []\<rparr>) None)
   \<and> route_redirectedFrom (createRoute ex_env (Some (ex_record ''/d'' None None None))
                ((ex_location ''/c'')\<lparr>loc_params := Some []\<rparr>) None) = None
   \<and> getFullPath ex_env ((ex_location ''/a'')\<lparr>loc_params := Some []\<rparr>) = ''/a''"
proof -
  let ?t = "createMatcher ex_env ex_chain_routes"
  let ?la = "(ex_location ''/a'')\<lparr>loc_params := Some []\<rparr>"
  let ?lb = "(ex_location ''/b'')\<lparr>loc_params := Some []\<rparr>"
  let ?lc = "(ex_location ''/c'')\<lparr>loc_params := Some []\<rparr>"
  let ?ra = "ex_record ''/a'' None None (Some (RedirectString ''/b''))"
  let ?rb = "ex_record ''/b'' None None (Some (RedirectString ''/c''))"
  let ?rc = "ex_record ''/c'' None (Some ''/d'') None"
  let ?rd = "ex_record ''/d'' None None None"
  have chain: "redirect_chain ex_env ?t ?la [?ra, ?rb] ?rc ?lc"
    by (simp add: chain_hops)
  have nr: "\<not> redirect_truthy (rec_redirect ?rc)" "truthy (rec_matchAs ?rc)"
    by (simp_all add: ex_record_def redirect_truthy_def truthy_def)
  have nd: "normal_record ?rd"
    by (simp add: normal_record_def ex_record_def redirect_truthy_def truthy_def)
  have s1: "createRoute_internal (Suc (Suc (Suc 0))) ex_env ?t (Some ?ra) ?la None
      = createRoute_internal (Suc (Suc 0)) ex_env ?t (Some ?rb) ?lb (Some ?la)"
    using createRoute_internal_hop [where env = ex_env and tbl = ?t and rf = None
        and location = ?la and r = ?ra and r' = ?rb and location' = ?lb and d = "Suc (Suc 0)"]
    by (simp add: chain_hops)
  have s2: "createRoute_internal (Suc (Suc 0)) ex_env ?t (Some ?rb) ?lb (Some ?la)
      = createRoute_internal (Suc 0) ex_env ?t (Some ?rc) ?lc (Some ?la)"
    using createRoute_internal_hop [where env = ex_env and tbl = ?t and rf = "Some ?la"
        and location = ?lb and r = ?rb and r' = ?rc and location' = ?lc and d = "Suc 0"]
    by (simp add: chain_hops)
  have al: "match_lookup ex_env ?t
           (RawObject \<lparr>loc_normalized = True, loc_name = None,
                       loc_path = Some (fillParams ex_env (the (rec_matchAs ?rc)) (loc_params ?lc)),
                       loc_query = None, loc_hash = None, loc_params = None\<rparr>)
           None None = Inr (Some ?rd, (ex_location ''/d'')\<lparr>loc_params := Some []\<rparr>, None)"
    by (simp add: lookup_simps ex_chain_table ex_fillParams_def)
  have s3: "createRoute_internal (Suc 0) ex_env ?t (Some ?rc) ?lc (Some ?la)
      = Inr (createRoute ex_env (Some ?rd) ?lc None)"
    using createRoute_internal_alias [OF nr al nd, where d = 0 and rf = "Some ?la"]
    by (simp add: ex_location_def)
  have m: "match (Suc (Suc (Suc 0))) ex_env ?t (RawString ''/a'') None None
      = Inr (createRoute ex_env (Some ?rd) ?lc None)"
    by (simp only: match_unfold chain_lookup(1) sum.case prod.case s1 s2 s3)
  have fp: "getFullPath ex_env ?la = ''/a''"
    by (simp add: ex_env_fields ex_getFullPath_def ex_location_def)
  from chain nr(1) m fp show ?thesis by (simp add: createRoute_matched)
qed

lemma ex_wild_table:
  "pathList (createMatcher ex_env ex_wild_routes) = [''/a'', ''/c'', ''/d'', ''*'']"
  "pathMap (createMatcher ex_env ex_wild_routes)
     = [''/a'' \<mapsto> ex_record ''/a'' None None (Some (RedirectString ''/b'')),
        ''/c'' \<mapsto> ex_record ''/c'' None None (Some (RedirectString ''/d'')),
        ''/d'' \<mapsto> ex_record ''/d'' None None None,
        ''*'' \<mapsto> ex_record ''*'' None None None]"
  "nameMap (createMatcher ex_env ex_wild_routes) = Map.empty"
proof -
  have "addRouteRecords ex_env ex_wild_routes empty_RouteMap =
    \<lparr>pathList = [''/a'', ''/c'', ''/d'', ''*''],
     pathMap = [''/a'' \<mapsto> ex_record ''/a'' None None (Some (RedirectString ''/b'')),
        ''/c'' \<mapsto> ex_record ''/c'' None None (Some (RedirectString ''/d'')),
        ''/d'' \<mapsto> ex_record ''/d'' None None None,
        ''*'' \<mapsto> ex_record ''*'' None None None],
     nameMap = Map.empty\<rparr>"
    by (simp add: add_simps ex_simps ex_wild_routes_def)
  note t = createMatcher_eval [OF this]
  show "pathList (createMatcher ex_env ex_wild_routes) = [''/a'', ''/c'', ''/d'', ''*'']"
    by (simp add: t ensure_wildcard_last_eq)
  show "pathMap (createMatcher ex_env ex_wild_routes)
     = [''/a'' \<mapsto> ex_record ''/a'' None None (Some (RedirectString ''/b'')),
        ''/c'' \<mapsto> ex_record ''/c'' None None (Some (RedirectString ''/d'')),
        ''/d'' \<mapsto> ex_record ''/d'' None None None,
        ''*'' \<mapsto> ex_record ''*'' None None None]"
    by (simp add: t)
  show "nameMap (createMatcher ex_env ex_wild_routes) = Map.empty"
    by (simp add: t)
qed

lemma ex_wild_table_whole:
  "createMatcher ex_env ex_wild_routes =
    \<lparr>pathList = [''/a'', ''/c'', ''/d'', ''*''],
     pathMap = [''/a'' \<mapsto> ex_record ''/a'' None None (Some (RedirectString ''/b'')),
        ''/c'' \<mapsto> ex_record ''/c'' None None (Some (RedirectString ''/d'')),
        ''/d'' \<mapsto> ex_record ''/d'' None None None,
        ''*'' \<mapsto> ex_record ''*'' None None None],
     nameMap = Map.empty\<rparr>"
  using ex_wild_table by (cases "createMatcher ex_env ex_wild_routes") simp

lemma ex_wild_added:
  "pathList (addRoutes ex_env (createMatcher ex_env ex_wild_routes) ex_wild_more)
     = [''/a'', ''/c'', ''/d'', ''/b'', ''*'']"
  "pathMap (addRoutes ex_env (createMatcher ex_env ex_wild_routes) ex_wild_more)
     = [''/a'' \<mapsto> ex_record ''/a'' None None (Some (RedirectString ''/b'')),
        ''/c'' \<mapsto> ex_record ''/c'' None None (Some (RedirectString ''/d'')),
        ''/d'' \<mapsto> ex_record ''/d'' None None None,
        ''*'' \<mapsto> ex_record ''*'' None None None,
        ''/b'' \<mapsto> ex_record ''/b'' None None None]"
  "nameMap (addRoutes ex_env (createMatcher ex_env ex_wild_routes) ex_wild_more)
     = [''again'' \<mapsto> ex_record ''/d'' (Some ''again'') None (Some (RedirectString ''/a''))]"
proof -
  have a: "addRouteRecords ex_env ex_wild_more (createMatcher ex_env ex_wild_routes) =
    \<lparr>pathList = [''/a'', ''/c'', ''/d'', ''*'', ''/b''],
     pathMap = [''/a'' \<mapsto> ex_record ''/a'' None None (Some (RedirectString ''/b'')),
        ''/c'' \<mapsto> ex_record ''/c'' None None (Some (RedirectString ''/d'')),
        ''/d'' \<mapsto> ex_record ''/d'' None None None,
        ''*'' \<mapsto> ex_record ''*'' None None None,
        ''/b'' \<mapsto> ex_record ''/b'' None None None],
     nameMap = [''again'' \<mapsto> ex_record ''/d'' (Some ''again'') None (Some (RedirectString ''/a''))]\<rparr>"
    unfolding ex_wild_table_whole
    by (simp add: add_simps ex_simps ex_wild_more_def)
  show "pathList (addRoutes ex_env (createMatcher ex_env ex_wild_routes) ex_wild_more)
     = [''/a'', ''/c'', ''/d'', ''/b'', ''*'']"
    by (simp add: addRoutes_unfold a ensure_wildcard_last_eq)
  show "pathMap (addRoutes ex_env (createMatcher ex_env ex_wild_routes) ex_wild_more)
     = [''/a'' \<mapsto> ex_record ''/a'' None None (Some (RedirectString ''/b'')),
        ''/c'' \<mapsto> ex_record ''/c'' None None (Some (RedirectString ''/d'')),
        ''/d'' \<mapsto> ex_record ''/d'' None None None,
        ''*'' \<mapsto> ex_record ''*'' None None None,
        ''/b'' \<mapsto> ex_record ''/b'' None None None]"
    by (simp add: addRoutes_unfold a)
  show "nameMap (addRoutes ex_env (createMatcher ex_env ex_wild_routes) ex_wild_more)
     = [''again'' \<mapsto> ex_record ''/d'' (Some ''again'') None (Some (RedirectString ''/a''))]"
    by (simp add: addRoutes_unfold a)
qed

lemma wild_lookup:
  "match_lookup ex_env (createMatcher ex_env ex_wild_routes) (RawString ''/a'') None None
     = Inr (Some (ex_record ''/a'' None None (Some (RedirectString ''/b''))),
            (ex_location ''/a'')\<lparr>loc_params := Some []\<rparr>, None)"
  "match_lookup ex_env (addRoutes ex_env (createMatcher ex_env ex_wild_routes) ex_wild_more)
      (RawString ''/a'') None None
     = Inr (Some (ex_record ''/a'' None None (Some (RedirectString ''/b''))),
            (ex_location ''/a'')\<lparr>loc_params := Some []\<rparr>, None)"
  "match_lookup ex_env (createMatcher ex_env ex_wild_routes) (RawString ''/c'') None None
     = Inr (Some (ex_record ''/c'' None None (Some (RedirectString ''/d''))),
            (ex_location ''/c'')\<lparr>loc_params := Some []\<rparr>, None)"
  "match_lookup ex_env (createMatcher ex_env ex_wild_routes) (RawObject (ex_location ''/d'')) None
      (Some ((ex_location ''/c'')\<lparr>loc_params := Some []\<rparr>))
     = Inr (Some (ex_record ''/d'' None None None),
            (ex_location ''/d'')\<lparr>loc_params := Some []\<rparr>,
            Some ((ex_location ''/c'')\<lparr>loc_params := Some []\<rparr>))"
  by (simp_all add: lookup_simps ex_wild_table ex_wild_added)

lemma wild_hops:
  "hop ex_env (createMatcher ex_env ex_wild_routes) ((ex_location ''/a'')\<lparr>loc_params := Some []\<rparr>)
     (ex_record ''/a'' None None (Some (RedirectString ''/b'')))
     = Some (ex_record ''*'' None None None,
             (ex_location ''/b'')\<lparr>loc_params := Some [(''pathMatch'', Some ''/b'')]\<rparr>)"
  "hop ex_env (addRoutes ex_env (createMatcher ex_env ex_wild_routes) ex_wild_more)
     ((ex_location ''/a'')\<lparr>loc_params := Some []\<rparr>)
     (ex_record ''/a'' None None (Some (RedirectString ''/b'')))
     = Some (ex_record ''/b'' None None None,
             (ex_location ''/b'')\<lparr>loc_params := Some []\<rparr>)"
  by (simp_all add: hop_simps lookup_simps ex_wild_table ex_wild_added)



lemma wild_hop_c:
  "hop ex_env (createMatcher ex_env ex_wild_routes) ((ex_location ''/c'')\<lparr>loc_params := Some []\<rparr>)
     (ex_record ''/c'' None None (Some (RedirectString ''/d'')))
     = Some (ex_record ''/d'' None None None, (ex_location ''/d'')\<lparr>loc_params := Some []\<rparr>)"
  by (simp add: hop_simps lookup_simps ex_wild_table)

theorem addRoutes_first_registration_wins_witness:
  "built (createMatcher ex_env ex_wild_routes)
   \<and> pathList (createMatcher ex_env ex_wild_routes) = [''/a'', ''/c'', ''/d'', ''*'']
   \<and> pathList (addRoutes ex_env (createMatcher ex_env ex_wild_routes) ex_wild_more)
        = [''/a'', ''/c'', ''/d'', ''/b'', ''*'']
   \<and> pathMap (addRoutes ex_env (createMatcher ex_env ex_wild_routes) ex_wild_more) ''/d''
        = Some (ex_record ''/d'' None None None)
   \<and> count_list (pathList (addRoutes ex_env (createMatcher ex_env ex_wild_routes) ex_wild_more)) ''/d''
        = 1
   \<and> match_lookup ex_env (addRoutes ex_env (createMatcher ex_env ex_wild_routes) ex_wild_more)
        (RawString ''/c'') None None
      = match_lookup ex_env (createMatcher ex_env ex_wild_routes) (RawString ''/c'') None None
   \<and> match (Suc 0) ex_env (addRoutes ex_env (createMatcher ex_env ex_wild_routes) ex_wild_more)
        (RawString ''/c'') None None
      = match (Suc 0) ex_env (createMatcher ex_env ex_wild_routes) (RawString ''/c'') None None
   \<and> match (Suc 0) ex_env (createMatcher ex_env ex_wild_routes) (RawString ''/c'') None None
      = Inr (createRoute ex_env (Some (ex_record ''/d'' None None None))
               ((ex_location ''/d'')\<lparr>loc_params := Some []\<rparr>)
               (Some ((ex_location ''/c'')\<lparr>loc_params := Some []\<rparr>)))"
proof -
  let ?t = "createMatcher ex_env ex_wild_routes"
  let ?t' = "addRoutes ex_env ?t ex_wild_more"
  let ?rc = "ex_record ''/c'' None None (Some (RedirectString ''/d''))"
  let ?rd = "ex_record ''/d'' None None None"
  let ?lc = "(ex_location ''/c'')\<lparr>loc_params := Some []\<rparr>"
  let ?ld = "(ex_location ''/d'')\<lparr>loc_params := Some []\<rparr>"
  have b: "built ?t"
    unfolding createMatcher_def by (rule createRouteMap_built) simp
  note C = addRoutes_first_registration_wins [OF b, where env = ex_env
      and route = "route_cfg ''/d'' None None None" and parent = None and matchAs = None
      and routes = ex_wild_more and raw = "RawString ''/c''" and currentRoute = None
      and redirectedFrom = None and d = "Suc 0" and re = "path_only ''/d''", unfolded Let_def]
  note D = addRoutes_first_registration_wins [OF b, where env = ex_env
      and route = "route_cfg ''/d'' None None None" and parent = None and matchAs = None
      and routes = ex_wild_more and raw = "RawObject (ex_location ''/d'')" and currentRoute = None
      and redirectedFrom = "Some ?lc" and d = 0 and re = "path_only ''/d''", unfolded Let_def]
  have keep: "pathMap ?t' ''/d'' = Some ?rd \<and> count_list (pathList ?t') ''/d'' = count_list (pathList ?t) ''/d''"
    by (rule C [THEN conjunct2, THEN conjunct2, THEN conjunct1, rule_format])
       (simp add: ex_wild_table)
  have nc: "normalizeLocation ex_env (RawString ''/c'') None False = ex_location ''/c''"
    "normalizeLocation ex_env (RawObject (ex_location ''/d'')) None False = ex_location ''/d''"
    by (simp_all add: ex_simps)
  have same_c: "match_lookup ex_env ?t' (RawString ''/c'') None None
      = match_lookup ex_env ?t (RawString ''/c'') None None"
    by (rule C [THEN conjunct2, THEN conjunct2, THEN conjunct2, THEN conjunct2, THEN conjunct2,
                THEN conjunct2, THEN conjunct1, rule_format])
       (auto simp add: nc ex_wild_table ex_wild_added truthy_def no_match_def ex_simps)
  have same_d: "match_lookup ex_env ?t' (RawObject (ex_location ''/d'')) None (Some ?lc)
      = match_lookup ex_env ?t (RawObject (ex_location ''/d'')) None (Some ?lc)"
    by (rule D [THEN conjunct2, THEN conjunct2, THEN conjunct2, THEN conjunct2, THEN conjunct2,
                THEN conjunct2, THEN conjunct1, rule_format])
       (auto simp add: nc ex_wild_table ex_wild_added truthy_def no_match_def ex_simps)
  have rv: "redirect_value ex_env ?rc ?lc = Some (path_only ''/d'')"
    by (simp add: redirect_value_def ex_record_def)
  have tg: "redirect_target ex_env ?rc ?lc (path_only ''/d'') = Some (ex_location ''/d'')"
    by (simp add: redirect_target_def path_only_def truthy_def resolveRecordPath_def ex_record_def
          ex_env_fields ex_resolvePath_def ex_fillParams_def is_param_def ex_location_def)
  have ra: "redirect_assert ex_env ?t' (path_only ''/d'') = redirect_assert ex_env ?t (path_only ''/d'')"
    by (rule C [THEN conjunct2, THEN conjunct2, THEN conjunct2, THEN conjunct2, THEN conjunct2,
                THEN conjunct2, THEN conjunct2, THEN conjunct1, rule_format])
       (simp add: path_only_def truthy_def)
  have rt: "redirect_truthy (rec_redirect ?rc)"
    by (simp add: redirect_truthy_def ex_record_def)
  have alike: "resolves_alike (Suc 0) ex_env ?t ?t' (Some ?rc) ?lc None"
    by (simp add: rt rv tg ra same_d wild_lookup(4))
  have m: "match (Suc 0) ex_env ?t' (RawString ''/c'') None None
      = match (Suc 0) ex_env ?t (RawString ''/c'') None None"
    by (rule C [THEN conjunct2, THEN conjunct2, THEN conjunct2, THEN conjunct2, THEN conjunct2,
                THEN conjunct2, THEN conjunct2, THEN conjunct2, rule_format, OF same_c])
       (clarsimp simp add: wild_lookup(3) alike simp del: resolves_alike.simps)
  have nd: "case Some ?rd of None \<Rightarrow> True | Some r \<Rightarrow> normal_record r"
    by (simp add: normal_record_def ex_record_def redirect_truthy_def truthy_def)
  have s1: "createRoute_internal (Suc 0) ex_env ?t (Some ?rc) ?lc None
      = createRoute_internal 0 ex_env ?t (Some ?rd) ?ld (Some ?lc)"
    using createRoute_internal_hop [where env = ex_env and tbl = ?t and rf = None
        and location = ?lc and r = ?rc and r' = ?rd and location' = ?ld and d = 0]
    by (simp add: wild_hop_c)
  have r: "match (Suc 0) ex_env ?t (RawString ''/c'') None None
      = Inr (createRoute ex_env (Some ?rd) ?ld (Some ?lc))"
    by (simp only: match_unfold wild_lookup(3) sum.case prod.case s1
          createRoute_internal_plain [OF nd])
  from b keep same_c m r show ?thesis
    by (simp add: ex_wild_table ex_wild_added)
qed

theorem addRoutes_changes_redirect_counterexample:
  "pathMap (createMatcher ex_env ex_wild_routes) ''/a''
     = Some (ex_record ''/a'' None None (Some (RedirectString ''/b'')))
   \<and> pathMap (addRoutes ex_env (createMatcher ex_env ex_wild_routes) ex_wild_more) ''/a''
     = Some (ex_record ''/a'' None None (Some (RedirectString ''/b'')))
   \<and> match_lookup ex_env (createMatcher ex_env ex_wild_routes) (RawString ''/a'') None None
     = Inr (Some (ex_record ''/a'' None None (Some (RedirectString ''/b''))),
            (ex_location ''/a'')\<lparr>loc_params := Some []\<rparr>, None)
   \<and> match_lookup ex_env (addRoutes ex_env (createMatcher ex_env ex_wild_routes) ex_wild_more)
        (RawString ''/a'') None None
     = Inr (Some (ex_record ''/a'' None None (Some (RedirectString ''/b''))),
            (ex_location ''/a'')\<lparr>loc_params := Some []\<rparr>, None)
   \<and> match (Suc 0) ex_env (createMatcher ex_env ex_wild_routes) (RawString ''/a'') None None
     = Inr (createRoute ex_env (Some (ex_record ''*'' None None None))
              ((ex_location ''/b'')\<lparr>loc_params := Some [(''pathMatch'', Some ''/b'')]\<rparr>)
              (Some ((ex_location ''/a'')\<lparr>loc_params := Some []\<rparr>)))
   \<and> match (Suc 0) ex_env (addRoutes ex_env (createMatcher ex_env ex_wild_routes) ex_wild_more)
        (RawString ''/a'') None None
     = Inr (createRoute ex_env (Some (ex_record ''/b'' None None None))
              ((ex_location ''/b'')\<lparr>loc_params := Some []\<rparr>)
              (Some ((ex_location ''/a'')\<lparr>loc_params := Some []\<rparr>)))
   \<and> route_matched (createRoute ex_env (Some (ex_record ''*'' None None None))
              ((ex_location ''/b'')\<lparr>loc_params := Some [(''pathMatch'', Some ''/b'')]\<rparr>)
              (Some ((ex_location ''/a'')\<lparr>loc_params := Some []\<rparr>)))
       = [ex_record ''*'' None None None]
   \<and> route_matched (createRoute ex_env (Some (ex_record ''/b'' None None None))
              ((ex_location ''/b'')\<lparr>loc_params := Some []\<rparr>)
              (Some ((ex_location ''/a'')\<lparr>loc_params := Some []\<rparr>)))
       = [ex_record ''/b'' None None None]
   \<and> ex_record ''*'' None None None \<noteq> ex_record ''/b'' None None None"
proof -
  let ?t = "createMatcher ex_env ex_wild_routes"
  let ?t' = "addRoutes ex_env ?t ex_wild_more"
  let ?ra = "ex_record ''/a'' None None (Some (RedirectString ''/b''))"
  let ?rs = "ex_record ''*'' None None None"
  let ?rb = "ex_record ''/b'' None None None"
  let ?la = "(ex_location ''/a'')\<lparr>loc_params := Some []\<rparr>"
  let ?ls = "(ex_location ''/b'')\<lparr>loc_params := Some [(''pathMatch'', Some ''/b'')]\<rparr>"
  let ?lb = "(ex_location ''/b'')\<lparr>loc_params := Some []\<rparr>"
  have ns: "case Some ?rs of None \<Rightarrow> True | Some r \<Rightarrow> normal_record r"
    and nb: "case Some ?rb of None \<Rightarrow> True | Some r \<Rightarrow> normal_record r"
    by (simp_all add: normal_record_def ex_record_def redirect_truthy_def truthy_def)
  have s1: "createRoute_internal (Suc 0) ex_env ?t (Some ?ra) ?la None
      = createRoute_internal 0 ex_env ?t (Some ?rs) ?ls (Some ?la)"
    using createRoute_internal_hop [where env = ex_env and tbl = ?t and rf = None
        and location = ?la and r = ?ra and r' = ?rs and location' = ?ls and d = 0]
    by (simp add: wild_hops)
  have s2: "createRoute_internal (Suc 0) ex_env ?t' (Some ?ra) ?la None
      = createRoute_internal 0 ex_env ?t' (Some ?rb) ?lb (Some ?la)"
    using createRoute_internal_hop [where env = ex_env and tbl = ?t' and rf = None
        and location = ?la and r = ?ra and r' = ?rb and location' = ?lb and d = 0]
    by (simp add: wild_hops)
  have m1: "match (Suc 0) ex_env ?t (RawString ''/a'') None None
      = Inr (createRoute ex_env (Some ?rs) ?ls (Some ?la))"
    by (simp only: match_unfold wild_lookup(1) sum.case prod.case s1
          createRoute_internal_plain [OF ns])
  have m2: "match (Suc 0) ex_env ?t' (RawString ''/a'') None None
      = Inr (createRoute ex_env (Some ?rb) ?lb (Some ?la))"
    by (simp only: match_unfold wild_lookup(2) sum.case prod.case s2
          createRoute_internal_plain [OF nb])
  have fm: "formatMatch ?rs = [?rs]" "formatMatch ?rb = [?rb]" by (simp_all add: ex_record_def)
  have ne: "?rs \<noteq> ?rb" by (simp add: ex_record_def)
  from m1 m2 fm ne wild_lookup(1,2) show ?thesis
    by (simp add: createRoute_matched ex_wild_table ex_wild_added)
qed

section \<open>Properties of the transition engine\<close>

subsection \<open>Closed forms\<close>

lemma abort_eq:
  "abort h n onAbort err =
     h\<lparr>ready := ready h \<or> js_truthy err,
       effects := effects h @ abort_effects h n onAbort err\<rparr>"
  by (cases onAbort)
     (auto simp: abort_def transitionTo_onAbort_def abort_effects_def emit_def Let_def)

lemma transitionTo_onComplete_eq:
  "transitionTo_onComplete h n route oc =
     h\<lparr>current := (n, route), ready := True,
       effects := effects h @ commit_effects h n oc\<rparr>"
  by (cases "cb h")
     (auto simp: transitionTo_onComplete_def updateRoute_def commit_effects_def emit_def Let_def)

lemma run_second_eq:
  "run_second h n nav q i =
     (if pending h \<noteq> Some n then abort h n (nav_onAbort nav) Undefined
      else case skip_none q i of
             Some (j, hook) \<Rightarrow> invokes h n nav j hook
           | None \<Rightarrow> commits h n nav)"
proof (induction q arbitrary: i)
  case Nil
  show ?case
    by (simp add: transitionTo_onComplete_eq commits_def commit_effects_def emit_def Let_def)
next
  case (Cons x q)
  show ?case
  proof (cases x)
    case None
    with Cons.IH show ?thesis by simp
  next
    case (Some hook)
    then show ?thesis by (simp add: iterator_def invokes_def emit_def)
  qed
qed

lemma run_first_eq:
  "run_first h n nav q i =
     (if pending h \<noteq> Some n then abort h n (nav_onAbort nav) Undefined
      else case skip_none q i of
             Some (j, hook) \<Rightarrow> invokes h n nav j hook
           | None \<Rightarrow>
               (let nav2 = nav\<lparr>nav_queue := second_queue (router h) (nav_activated nav),
                               nav_second := True, nav_postEnterCbs := []\<rparr>
                in case skip_none (second_queue (router h) (nav_activated nav)) 0 of
                     Some (j, hook) \<Rightarrow> invokes h n nav2 j hook
                   | None \<Rightarrow> commits h n nav2))"
proof (induction q arbitrary: i)
  case Nil
  show ?case
    by (simp add: run_second_eq Let_def)
next
  case (Cons x q)
  show ?case
  proof (cases x)
    case None
    with Cons.IH show ?thesis by simp
  next
    case (Some hook)
    then show ?thesis by (simp add: iterator_def invokes_def emit_def)
  qed
qed

lemma skip_none_append_Some: "skip_none (q @ [Some hook]) i \<noteq> None"
proof (induction q arbitrary: i)
  case Nil
  show ?case by simp
next
  case (Cons x q)
  then show ?case by (cases x) auto
qed

lemma since_append: "effects h' = effects h @ es \<Longrightarrow> since h h' = es"
  by (simp add: since_def)

lemma first_queue_guard: "skip_none (first_queue r cur route) i \<noteq> None"
proof -
  obtain u a d where "resolveQueue (route_matched cur) (route_matched route) = (u, a, d)"
    by (cases "resolveQueue (route_matched cur) (route_matched route)") auto
  then show ?thesis
    using skip_none_append_Some
            [of "extractLeaveGuards d @ map (map_option PlainGuard) (beforeHooks r)
                 @ extractUpdateHooks u @ map (\<lambda>m. map_option PlainGuard (rec_beforeEnter m)) a"
                "ResolveAsyncComponents a" i]
    by (simp add: first_queue_def)
qed

lemma abort_effects_plain:
  "e \<in> set (abort_effects h n onAbort err) \<Longrightarrow>
     \<not> commit_of k e \<and> \<not> is_invoke e \<and> e \<noteq> UpdateRoute k"
  by (auto simp: abort_effects_def commit_of_def is_invoke_def split: if_splits option.splits)

lemma commit_effects_own:
  "e \<in> set (commit_effects h n oc) \<Longrightarrow> (commit_of k e \<longrightarrow> k = n) \<and> \<not> is_invoke e"
  by (auto simp: commit_effects_def call_onComplete_def commit_of_def is_invoke_def
           split: if_splits option.splits OnComplete.splits)

subsection \<open>Frames\<close>

lemma frameI:
  assumes "fresh h \<le> fresh h'" and "effects h' = effects h @ es"
    and c: "\<And>e k. e \<in> set es \<Longrightarrow> commit_of k e \<Longrightarrow> P k"
    and i: "\<And>k b i hk. Invoke k b i hk \<in> set es \<Longrightarrow> P k \<or> created h h' k"
    and "(\<forall>k. UpdateRoute k \<notin> set es) \<longrightarrow> current h' = current h"
    and w: "\<And>k. \<not> P k \<Longrightarrow> \<not> created h h' k \<Longrightarrow>
              waiting h' k = waiting h k \<and> (pending h' = Some k \<longrightarrow> pending h = Some k)"
  shows "frame P h h'"
proof -
  have 3: "\<forall>e\<in>set es. \<forall>k. commit_of k e \<longrightarrow> P k" using c by blast
  have 4: "\<forall>e\<in>set es. \<forall>k b i hk. e = Invoke k b i hk \<longrightarrow> P k \<or> created h h' k"
    using i by blast
  have 6: "\<forall>k. \<not> P k \<longrightarrow> \<not> created h h' k \<longrightarrow>
            waiting h' k = waiting h k \<and> (pending h' = Some k \<longrightarrow> pending h = Some k)"
    using w by blast
  show ?thesis
    unfolding frame_def
    apply (intro conjI)
      apply (rule assms(1))
     apply (rule exI [of _ es])
     apply (intro conjI)
        apply (rule assms(2))
       apply (rule 3)
      apply (rule 4)
     apply (rule assms(5))
    apply (rule 6)
    done
qed

lemma frameE:
  assumes "frame P h h'"
  obtains es where "fresh h \<le> fresh h'" and "effects h' = effects h @ es"
    and "\<forall>e\<in>set es. \<forall>k. commit_of k e \<longrightarrow> P k"
    and "\<forall>e\<in>set es. \<forall>k b i hk. e = Invoke k b i hk \<longrightarrow> P k \<or> created h h' k"
    and "(\<forall>k. UpdateRoute k \<notin> set es) \<longrightarrow> current h' = current h"
    and "\<forall>k. \<not> P k \<longrightarrow> \<not> created h h' k \<longrightarrow>
            waiting h' k = waiting h k \<and> (pending h' = Some k \<longrightarrow> pending h = Some k)"
proof -
  from assms [unfolded frame_def] show thesis by (elim conjE exE) (rule that)
qed

lemma frame_refl: "frame P h h"
  by (rule frameI [where es = "[]"]) simp_all

lemma frame_mono:
  assumes "frame P h h'" and pq: "\<And>k. P k \<Longrightarrow> Q k"
  shows "frame Q h h'"
proof -
  from assms(1) obtain es where 1:
    "fresh h \<le> fresh h'" "effects h' = effects h @ es"
    "\<forall>e\<in>set es. \<forall>k. commit_of k e \<longrightarrow> P k"
    "\<forall>e\<in>set es. \<forall>k b i hk. e = Invoke k b i hk \<longrightarrow> P k \<or> created h h' k"
    "(\<forall>k. UpdateRoute k \<notin> set es) \<longrightarrow> current h' = current h"
    "\<forall>k. \<not> P k \<longrightarrow> \<not> created h h' k \<longrightarrow>
            waiting h' k = waiting h k \<and> (pending h' = Some k \<longrightarrow> pending h = Some k)"
    by (rule frameE)
  show ?thesis
  proof (rule frameI [where es = es])
    show "fresh h \<le> fresh h'" by fact
    show "effects h' = effects h @ es" by fact
    show "(\<forall>k. UpdateRoute k \<notin> set es) \<longrightarrow> current h' = current h" by fact
  next
    fix e k assume "e \<in> set es" "commit_of k e"
    with 1(3) have "P k" by blast
    then show "Q k" by (rule pq)
  next
    fix k b i hk assume "Invoke k b i hk \<in> set es"
    with 1(4) have "P k \<or> created h h' k" by blast
    with pq show "Q k \<or> created h h' k" by blast
  next
    fix k assume "\<not> Q k" "\<not> created h h' k"
    with pq have "\<not> P k" by blast
    with 1(6) \<open>\<not> created h h' k\<close>
    show "waiting h' k = waiting h k \<and> (pending h' = Some k \<longrightarrow> pending h = Some k)" by blast
  qed
qed

lemma frame_trans:
  assumes "frame P h h1" and "frame P h1 h2"
  shows "frame P h h2"
proof -
  from assms(1) obtain es1 where 1:
    "fresh h \<le> fresh h1" "effects h1 = effects h @ es1"
    "\<forall>e\<in>set es1. \<forall>k. commit_of k e \<longrightarrow> P k"
    "\<forall>e\<in>set es1. \<forall>k b i hk. e = Invoke k b i hk \<longrightarrow> P k \<or> created h h1 k"
    "(\<forall>k. UpdateRoute k \<notin> set es1) \<longrightarrow> current h1 = current h"
    "\<forall>k. \<not> P k \<longrightarrow> \<not> created h h1 k \<longrightarrow>
            waiting h1 k = waiting h k \<and> (pending h1 = Some k \<longrightarrow> pending h = Some k)"
    by (rule frameE)
  from assms(2) obtain es2 where 2:
    "fresh h1 \<le> fresh h2" "effects h2 = effects h1 @ es2"
    "\<forall>e\<in>set es2. \<forall>k. commit_of k e \<longrightarrow> P k"
    "\<forall>e\<in>set es2. \<forall>k b i hk. e = Invoke k b i hk \<longrightarrow> P k \<or> created h1 h2 k"
    "(\<forall>k. UpdateRoute k \<notin> set es2) \<longrightarrow> current h2 = current h1"
    "\<forall>k. \<not> P k \<longrightarrow> \<not> created h1 h2 k \<longrightarrow>
            waiting h2 k = waiting h1 k \<and> (pending h2 = Some k \<longrightarrow> pending h1 = Some k)"
    by (rule frameE)
  have c: "\<And>k. created h h1 k \<or> created h1 h2 k \<Longrightarrow> created h h2 k"
    using 1(1) 2(1) by (auto simp: created_def)
  have nc: "\<And>k. \<not> created h h2 k \<Longrightarrow> \<not> created h h1 k \<and> \<not> created h1 h2 k"
    using 1(1) 2(1) by (auto simp: created_def)
  show ?thesis
  proof (rule frameI [where es = "es1 @ es2"])
    show "fresh h \<le> fresh h2" using 1(1) 2(1) by simp
    show "effects h2 = effects h @ es1 @ es2" using 1(2) 2(2) by simp
    show "(\<forall>k. UpdateRoute k \<notin> set (es1 @ es2)) \<longrightarrow> current h2 = current h"
      using 1(5) 2(5) by simp
  next
    fix e k assume "e \<in> set (es1 @ es2)" "commit_of k e"
    then consider "e \<in> set es1" | "e \<in> set es2" by auto
    then show "P k" using 1(3) 2(3) \<open>commit_of k e\<close> by cases blast+
  next
    fix k b i hk assume "Invoke k b i hk \<in> set (es1 @ es2)"
    then consider "Invoke k b i hk \<in> set es1" | "Invoke k b i hk \<in> set es2" by auto
    then show "P k \<or> created h h2 k"
    proof cases
      case 1
      with \<open>\<forall>e\<in>set es1. \<forall>k b i hk. e = Invoke k b i hk \<longrightarrow> P k \<or> created h h1 k\<close>
      have "P k \<or> created h h1 k" by blast
      with c show ?thesis by blast
    next
      case 2
      with \<open>\<forall>e\<in>set es2. \<forall>k b i hk. e = Invoke k b i hk \<longrightarrow> P k \<or> created h1 h2 k\<close>
      have "P k \<or> created h1 h2 k" by blast
      with c show ?thesis by blast
    qed
  next
    fix k assume "\<not> P k" "\<not> created h h2 k"
    with nc have "\<not> created h h1 k" "\<not> created h1 h2 k" by blast+
    with \<open>\<not> P k\<close> 1(6) 2(6) show
      "waiting h2 k = waiting h k \<and> (pending h2 = Some k \<longrightarrow> pending h = Some k)"
      by simp
  qed
qed

lemma abort_fields:
  "router (abort h n oa err) = router h" "current (abort h n oa err) = current h"
  "pending (abort h n oa err) = pending h" "waiting (abort h n oa err) = waiting h"
  "fresh (abort h n oa err) = fresh h" "errorCbs (abort h n oa err) = errorCbs h"
  "cb (abort h n oa err) = cb h"
  "effects (abort h n oa err) = effects h @ abort_effects h n oa err"
  by (simp_all add: abort_eq)

lemma invokes_fields:
  "router (invokes h n nav j hook) = router h" "current (invokes h n nav j hook) = current h"
  "pending (invokes h n nav j hook) = pending h"
  "waiting (invokes h n nav j hook) = (waiting h)(n \<mapsto> nav\<lparr>nav_index := j\<rparr>)"
  "fresh (invokes h n nav j hook) = fresh h" "errorCbs (invokes h n nav j hook) = errorCbs h"
  "cb (invokes h n nav j hook) = cb h"
  "effects (invokes h n nav j hook) = effects h @ [Invoke n (nav_second nav) j hook]"
  by (simp_all add: invokes_def)

lemma commits_fields:
  "router (commits h n nav) = router h" "current (commits h n nav) = (n, nav_route nav)"
  "pending (commits h n nav) = None" "waiting (commits h n nav) = waiting h"
  "fresh (commits h n nav) = fresh h" "errorCbs (commits h n nav) = errorCbs h"
  "cb (commits h n nav) = cb h"
  "effects (commits h n nav) =
     effects h @ commit_effects h n (nav_onComplete nav)
     @ (if app (router h) then [NextTick n (nav_postEnterCbs nav)] else [])"
  by (simp_all add: commits_def)

lemma frame_abort: "frame P h (abort h n oa err)"
  unfolding frame_def
  by (auto simp: abort_fields created_def is_invoke_def dest: abort_effects_plain)

lemma transitionTo_threw:
  "router_match (router h) loc (snd (current h)) = Inl e \<Longrightarrow>
     transitionTo h loc oc oa = emit [MatchThrew e] h"
  by (simp add: transitionTo_def)

lemma transitionTo_duplicate:
  assumes "router_match (router h) loc (snd (current h)) = Inr route"
    and "duplicate h route"
  shows "transitionTo h loc oc oa =
           h\<lparr>fresh := Suc (fresh h), ready := True,
             effects := effects h @ EnsureURL False
               # abort_effects h (fresh h) oa (JErr (NavigationDuplicated route))\<rparr>"
  using assms
  by (simp add: transitionTo_def confirmTransition_def duplicate_def abort_eq emit_def
                js_truthy_def abort_effects_def)

lemma transitionTo_started:
  assumes "router_match (router h) loc (snd (current h)) = Inr route"
    and "\<not> duplicate h route"
  shows "\<exists>j hook. skip_none (first_queue (router h) (snd (current h)) route) 0 = Some (j, hook)
           \<and> transitionTo h loc oc oa =
               invokes (h\<lparr>fresh := Suc (fresh h), pending := Some (fresh h)\<rparr>) (fresh h)
                 (start_nav h route oc oa) j hook"
proof -
  obtain j hook where s: "skip_none (first_queue (router h) (snd (current h)) route) 0 = Some (j, hook)"
    using first_queue_guard [of "router h" "snd (current h)" route 0] by auto
  have "transitionTo h loc oc oa =
          invokes (h\<lparr>fresh := Suc (fresh h), pending := Some (fresh h)\<rparr>) (fresh h)
            (start_nav h route oc oa) j hook"
    using assms s
    by (auto simp: transitionTo_def confirmTransition_def duplicate_def run_first_eq
                   start_nav_def Let_def)
  with s show ?thesis by blast
qed

lemma frame_transitionTo: "frame (\<lambda>k. False) h (transitionTo h loc oc oa)"
proof (cases "router_match (router h) loc (snd (current h))")
  case (Inl e)
  then show ?thesis
    by (simp add: transitionTo_threw emit_def frame_def created_def commit_of_def)
next
  case (Inr route)
  show ?thesis
  proof (cases "duplicate h route")
    case True
    show ?thesis
      unfolding transitionTo_duplicate [OF Inr True] frame_def
      by (auto simp: created_def commit_of_def is_invoke_def dest: abort_effects_plain)
  next
    case False
    from transitionTo_started [OF Inr False, of oc oa] obtain j hook where
      "transitionTo h loc oc oa =
         invokes (h\<lparr>fresh := Suc (fresh h), pending := Some (fresh h)\<rparr>) (fresh h)
           (start_nav h route oc oa) j hook" by blast
    then show ?thesis
      by (auto simp: frame_def invokes_fields created_def commit_of_def)
  qed
qed

lemma frame_removed: "frame (\<lambda>k. k = n) h (h\<lparr>waiting := (waiting h)(n := None)\<rparr>)"
  by (rule frameI [where es = "[]"]) simp_all

lemma frame_emit:
  assumes "\<And>e k. e \<in> set es \<Longrightarrow> \<not> commit_of k e \<and> \<not> is_invoke e \<and> e \<noteq> UpdateRoute k"
  shows "frame P h (emit es h)"
proof (rule frameI [where es = es])
  show "effects (emit es h) = effects h @ es" by (simp add: emit_def)
  show "fresh h \<le> fresh (emit es h)" by (simp add: emit_def)
  show "(\<forall>k. UpdateRoute k \<notin> set es) \<longrightarrow> current (emit es h) = current h"
    by (simp add: emit_def)
next
  fix e k assume "e \<in> set es" "commit_of k e"
  with assms show "P k" by blast
next
  fix k b i hk assume "Invoke k b i hk \<in> set es"
  with assms [of "Invoke k b i hk"] show "P k \<or> created h (emit es h) k"
    by (simp add: is_invoke_def)
next
  fix k
  show "waiting (emit es h) k = waiting h k
        \<and> (pending (emit es h) = Some k \<longrightarrow> pending h = Some k)"
    by (simp add: emit_def)
qed

lemma frame_invokes: "frame (\<lambda>k. k = n) h (invokes h n nav j hook)"
  by (rule frameI [where es = "[Invoke n (nav_second nav) j hook]"])
     (simp_all add: invokes_fields commit_of_def)

lemma frame_commits: "frame (\<lambda>k. k = n) h (commits h n nav)"
proof (rule frameI [where es = "commit_effects h n (nav_onComplete nav)
          @ (if app (router h) then [NextTick n (nav_postEnterCbs nav)] else [])"])
  fix e k
  assume "e \<in> set (commit_effects h n (nav_onComplete nav)
            @ (if app (router h) then [NextTick n (nav_postEnterCbs nav)] else []))"
    and "commit_of k e"
  then show "k = n"
    by (auto simp: commit_of_def dest: commit_effects_own split: if_splits)
next
  fix k b i hk
  assume "Invoke k b i hk \<in> set (commit_effects h n (nav_onComplete nav)
            @ (if app (router h) then [NextTick n (nav_postEnterCbs nav)] else []))"
  then show "k = n \<or> created h (commits h n nav) k"
    by (auto simp: is_invoke_def dest: commit_effects_own split: if_splits)
next
  show "(\<forall>k. UpdateRoute k \<notin> set (commit_effects h n (nav_onComplete nav)
            @ (if app (router h) then [NextTick n (nav_postEnterCbs nav)] else [])))
        \<longrightarrow> current (commits h n nav) = current h"
  proof -
    have "UpdateRoute n \<in> set (commit_effects h n (nav_onComplete nav))"
      by (simp add: commit_effects_def)
    then show ?thesis by auto
  qed
qed (simp_all add: commits_fields)

lemma frame_run_second: "frame (\<lambda>k. k = n) h (run_second h n nav q i)"
  by (auto simp: run_second_eq frame_abort frame_invokes frame_commits split: option.splits)

lemma frame_run_first: "frame (\<lambda>k. k = n) h (run_first h n nav q i)"
  by (auto simp: run_first_eq Let_def frame_abort frame_invokes frame_commits split: option.splits)

lemma frame_transitionTo_any: "frame P h (transitionTo h loc oc oa)"
  by (rule frame_mono [OF frame_transitionTo]) simp

lemma frame_hook_throws: "frame (\<lambda>k. k = n) h (hook_throws h n e)"
proof (cases "waiting h n")
  case None
  then show ?thesis by (simp add: hook_throws_def frame_refl)
next
  case (Some nav)
  have "frame (\<lambda>k. k = n) h (abort (h\<lparr>waiting := (waiting h)(n := None)\<rparr>) n (nav_onAbort nav) e)"
    by (rule frame_trans [OF frame_removed frame_abort])
  with Some show ?thesis by (simp add: hook_throws_def)
qed

lemma frame_hook_next: "frame (\<lambda>k. k = n) h (hook_next h n v)"
proof (cases "waiting h n")
  case None
  then show ?thesis by (simp add: hook_next_def frame_refl)
next
  case (Some nav)
  define h1 where "h1 = h\<lparr>waiting := (waiting h)(n := None)\<rparr>"
  have r: "frame (\<lambda>k. k = n) h h1" unfolding h1_def by (rule frame_removed)
  have e: "frame (\<lambda>k. k = n) h1 (emit [EnsureURL True] h1)"
    by (rule frame_emit) (simp add: commit_of_def is_invoke_def)
  have a: "frame (\<lambda>k. k = n) h
             (abort (emit [EnsureURL True] h1) n (nav_onAbort nav) v)"
    by (rule frame_trans [OF r frame_trans [OF e frame_abort]])
  have b: "frame (\<lambda>k. k = n) h (abort h1 n (nav_onAbort nav) Undefined)"
    by (rule frame_trans [OF r frame_abort])
  have c: "frame (\<lambda>k. k = n) h
             (transitionTo (abort h1 n (nav_onAbort nav) Undefined) loc oc oa)" for loc oc oa
    by (rule frame_trans [OF b frame_transitionTo_any])
  have d: "frame (\<lambda>k. k = n) h (run_second h1 n nav' q i)" for nav' q i
    by (rule frame_trans [OF r frame_run_second])
  have f: "frame (\<lambda>k. k = n) h (run_first h1 n nav' q i)" for nav' q i
    by (rule frame_trans [OF r frame_run_first])
  show ?thesis
    using Some a c d f
    by (simp add: hook_next_def Let_def h1_def [symmetric] History_push_def History_replace_def)
qed

lemma frame_registration:
  assumes "fresh h' = fresh h" and "waiting h' = waiting h" and "pending h' = pending h"
    and "current h' = current h" and "effects h' = effects h @ es"
    and "es = [] \<or> (\<exists>c. es = [ReadyNow c])"
  shows "frame P h h'"
proof (rule frameI [where es = es])
  show "effects h' = effects h @ es" by (rule assms(5))
  show "fresh h \<le> fresh h'" by (simp add: assms(1))
  show "(\<forall>k. UpdateRoute k \<notin> set es) \<longrightarrow> current h' = current h" by (simp add: assms(4))
next
  fix e k assume "e \<in> set es" "commit_of k e"
  with assms(6) show "P k" by (auto simp: commit_of_def)
next
  fix k b i hk assume "Invoke k b i hk \<in> set es"
  with assms(6) show "P k \<or> created h h' k" by auto
next
  fix k
  show "waiting h' k = waiting h k \<and> (pending h' = Some k \<longrightarrow> pending h = Some k)"
    by (simp add: assms(2,3))
qed

lemma frame_listen: "frame P h (listen h c)"
  by (rule frame_registration [where es = "[]"]) (simp_all add: listen_def)

lemma frame_onReady: "frame P h (onReady h c errorCb)"
proof (cases "ready h")
  case True
  show ?thesis
    by (rule frame_registration [where es = "[ReadyNow c]"]) (simp_all add: onReady_def emit_def True)
next
  case False
  show ?thesis
    by (rule frame_registration [where es = "[]"]) (simp_all add: onReady_def False)
qed

lemma frame_onError: "frame P h (onError h errorCb)"
  by (rule frame_registration [where es = "[]"]) (simp_all add: onError_def)

lemma frame_register_hook: "frame P h (register_hook h l fn)"
  by (rule frame_registration [where es = "[]"]) (simp_all add: register_hook_def)

lemma frame_unregister_hook: "frame P h (unregister_hook h l fn)"
  by (rule frame_registration [where es = "[]"]) (simp_all add: unregister_hook_def)

lemma frame_step: "frame (\<lambda>k. actor ev = Some k) h (step h ev)"
proof (cases ev)
  case (Navigate loc oc oa)
  then show ?thesis by (simp add: step_def frame_transitionTo_any)
next
  case (Next n v)
  have "(\<lambda>k. Some n = Some k) = (\<lambda>k. k = n)" by auto
  with Next show ?thesis by (simp add: step_def actor_def frame_hook_next)
next
  case (Throws n e)
  have "(\<lambda>k. Some n = Some k) = (\<lambda>k. k = n)" by auto
  with Throws show ?thesis by (simp add: step_def actor_def frame_hook_throws)
qed (simp_all add: step_def frame_listen frame_onReady frame_onError frame_register_hook
       frame_unregister_hook)

subsection \<open>The navigation that acts in a step\<close>

lemma idle_step: "actor ev = Some n \<Longrightarrow> waiting h n = None \<Longrightarrow> step h ev = h"
  by (cases ev) (simp_all add: actor_def step_def hook_next_def hook_throws_def)

lemma ownI:
  assumes "effects h' = effects h @ es"
    and "pending h' = Some n \<longrightarrow> pending h = Some n"
    and "\<And>e. e \<in> set es \<Longrightarrow> commit_of n e \<or> (\<exists>b i hk. e = Invoke n b i hk) \<Longrightarrow>
            pending h = Some n"
    and "(\<exists>e\<in>set es. commit_of n e) \<longrightarrow> waiting h' n = None"
  shows "own n h h'"
  unfolding own_def since_append [OF assms(1)]
  using assms(2-4) by blast

lemma abort_effects_frame:
  "abort_effects (h\<lparr>waiting := w\<rparr>) n oa err = abort_effects h n oa err"
  "abort_effects (emit es h) n oa err = abort_effects h n oa err"
  "abort_effects (h\<lparr>effects := es\<rparr>) n oa err = abort_effects h n oa err"
  by (simp_all add: abort_effects_def emit_def)

lemma own_hook_throws: "own n h (hook_throws h n e)"
proof (cases "waiting h n")
  case None
  then show ?thesis by (simp add: hook_throws_def own_def since_def)
next
  case (Some nav)
  show ?thesis
    by (rule ownI [where es = "abort_effects h n (nav_onAbort nav) e"])
       (auto simp: Some hook_throws_def abort_fields abort_effects_frame is_invoke_def
             dest: abort_effects_plain)
qed

lemma own_run_second:
  assumes "effects h1 = effects h" "pending h1 = pending h" "waiting h1 n = None"
  shows "own n h (run_second h1 n nav q i)"
proof (cases "pending h = Some n")
  case False
  have "own n h (abort h1 n (nav_onAbort nav) Undefined)"
    by (rule ownI [where es = "abort_effects h1 n (nav_onAbort nav) Undefined"])
       (auto simp: assms abort_fields is_invoke_def dest: abort_effects_plain)
  with False assms show ?thesis by (simp add: run_second_eq)
next
  case True
  have 1: "own n h (invokes h1 n nav j hook)" for j hook
    by (rule ownI [where es = "[Invoke n (nav_second nav) j hook]"])
       (simp_all add: assms invokes_fields True commit_of_def)
  have 2: "own n h (commits h1 n nav)"
    by (rule ownI [where es = "commit_effects h1 n (nav_onComplete nav)
          @ (if app (router h1) then [NextTick n (nav_postEnterCbs nav)] else [])"])
       (simp_all add: assms commits_fields True)
  from True assms 1 2 show ?thesis
    by (auto simp: run_second_eq split: option.splits)
qed

lemma own_run_first:
  assumes "effects h1 = effects h" "pending h1 = pending h" "waiting h1 n = None"
  shows "own n h (run_first h1 n nav q i)"
proof (cases "pending h = Some n")
  case False
  have "own n h (abort h1 n (nav_onAbort nav) Undefined)"
    by (rule ownI [where es = "abort_effects h1 n (nav_onAbort nav) Undefined"])
       (auto simp: assms abort_fields is_invoke_def dest: abort_effects_plain)
  with False assms show ?thesis by (simp add: run_first_eq)
next
  case True
  have 1: "own n h (invokes h1 n nav' j hook)" for j hook nav'
    by (rule ownI [where es = "[Invoke n (nav_second nav') j hook]"])
       (simp_all add: assms invokes_fields True commit_of_def)
  have 2: "own n h (commits h1 n nav')" for nav'
    by (rule ownI [where es = "commit_effects h1 n (nav_onComplete nav')
          @ (if app (router h1) then [NextTick n (nav_postEnterCbs nav')] else [])"])
       (simp_all add: assms commits_fields True)
  from True assms 1 2 show ?thesis
    by (auto simp: run_first_eq Let_def split: option.splits)
qed

lemma own_then_transitionTo:
  assumes n: "n < fresh h1"
    and e1: "effects h1 = effects h @ es1"
    and p1: "pending h1 = pending h"
    and q1: "\<And>e. e \<in> set es1 \<Longrightarrow> \<not> commit_of n e \<and> \<not> is_invoke e"
  shows "own n h (transitionTo h1 loc oc oa)"
proof -
  from frame_transitionTo [of h1 loc oc oa] obtain es where f:
    "fresh h1 \<le> fresh (transitionTo h1 loc oc oa)"
    "effects (transitionTo h1 loc oc oa) = effects h1 @ es"
    "\<forall>e\<in>set es. \<forall>k. commit_of k e \<longrightarrow> False"
    "\<forall>e\<in>set es. \<forall>k b i hk. e = Invoke k b i hk
        \<longrightarrow> False \<or> created h1 (transitionTo h1 loc oc oa) k"
    "\<forall>k. \<not> False \<longrightarrow> \<not> created h1 (transitionTo h1 loc oc oa) k \<longrightarrow>
            waiting (transitionTo h1 loc oc oa) k = waiting h1 k
            \<and> (pending (transitionTo h1 loc oc oa) = Some k \<longrightarrow> pending h1 = Some k)"
    by (rule frameE)
  have nc: "\<not> created h1 (transitionTo h1 loc oc oa) n" using n by (simp add: created_def)
  show ?thesis
  proof (rule ownI [where es = "es1 @ es"])
    show "effects (transitionTo h1 loc oc oa) = effects h @ es1 @ es" using e1 f(2) by simp
    show "pending (transitionTo h1 loc oc oa) = Some n \<longrightarrow> pending h = Some n"
      using f(5) nc p1 by simp
    show "(\<exists>e\<in>set (es1 @ es). commit_of n e) \<longrightarrow> waiting (transitionTo h1 loc oc oa) n = None"
      using f(3) q1 by auto
  next
    fix e assume "e \<in> set (es1 @ es)" "commit_of n e \<or> (\<exists>b i hk. e = Invoke n b i hk)"
    then have False
      using f(3) f(4) q1 [of e] nc by (auto simp: is_invoke_def)
    then show "pending h = Some n" ..
  qed
qed

lemma own_hook_next:
  assumes "n < fresh h"
  shows "own n h (hook_next h n v)"
proof (cases "waiting h n")
  case None
  then show ?thesis by (simp add: hook_next_def own_def since_def)
next
  case (Some nav)
  define h1 where "h1 = h\<lparr>waiting := (waiting h)(n := None)\<rparr>"
  have h1: "effects h1 = effects h" "pending h1 = pending h" "waiting h1 n = None"
    "fresh h1 = fresh h"
    by (simp_all add: h1_def)
  have a: "own n h (abort (emit [EnsureURL True] h1) n (nav_onAbort nav) v)"
    by (rule ownI [where es = "EnsureURL True # abort_effects h n (nav_onAbort nav) v"])
       (auto simp: h1_def abort_fields abort_effects_frame emit_def is_invoke_def commit_of_def
             dest: abort_effects_plain)
  have c: "own n h (transitionTo (abort h1 n (nav_onAbort nav) Undefined) loc oc oa)"
    for loc oc oa
    by (rule own_then_transitionTo
              [where ?es1.0 = "abort_effects h n (nav_onAbort nav) Undefined"])
       (auto simp: h1_def abort_fields abort_effects_frame assms dest: abort_effects_plain)
  have d: "own n h (run_second h1 n nav' q i)" for nav' q i
    by (rule own_run_second) (rule h1)+
  have f: "own n h (run_first h1 n nav' q i)" for nav' q i
    by (rule own_run_first) (rule h1)+
  show ?thesis
    using Some a c d f
    by (simp add: hook_next_def Let_def h1_def [symmetric] History_push_def History_replace_def)
qed

lemma own_step: "actor ev = Some n \<Longrightarrow> n < fresh h \<Longrightarrow> own n h (step h ev)"
  by (cases ev) (simp_all add: actor_def step_def own_hook_next own_hook_throws)

subsection \<open>Steps and runs\<close>

lemma since_same: "since h h = []"
  by (simp add: since_def)

lemma step_grows:
  "fresh h \<le> fresh (step h ev)" "\<exists>es. effects (step h ev) = effects h @ es"
  using frame_step [of ev h] by (auto elim: frameE)

lemma step_others:
  assumes a: "a < fresh h" and o: "actor ev \<noteq> Some a \<or> waiting h a = None"
  shows "waiting (step h ev) a = waiting h a"
    and "pending (step h ev) = Some a \<longrightarrow> pending h = Some a"
    and "\<forall>e\<in>set (since h (step h ev)). \<not> commit_of a e \<and> (\<forall>b i hk. e \<noteq> Invoke a b i hk)"
proof -
  have "waiting (step h ev) a = waiting h a
        \<and> (pending (step h ev) = Some a \<longrightarrow> pending h = Some a)
        \<and> (\<forall>e\<in>set (since h (step h ev)). \<not> commit_of a e \<and> (\<forall>b i hk. e \<noteq> Invoke a b i hk))"
  proof (cases "actor ev = Some a")
    case True
    with o have "step h ev = h" by (simp add: idle_step)
    then show ?thesis by (simp add: since_same)
  next
    case False
    from frame_step [of ev h] obtain es where f:
      "effects (step h ev) = effects h @ es"
      "\<forall>e\<in>set es. \<forall>k. commit_of k e \<longrightarrow> actor ev = Some k"
      "\<forall>e\<in>set es. \<forall>k b i hk. e = Invoke k b i hk
           \<longrightarrow> actor ev = Some k \<or> created h (step h ev) k"
      "\<forall>k. \<not> actor ev = Some k \<longrightarrow> \<not> created h (step h ev) k \<longrightarrow>
            waiting (step h ev) k = waiting h k
            \<and> (pending (step h ev) = Some k \<longrightarrow> pending h = Some k)"
      by (rule frameE)
    have nc: "\<not> created h (step h ev) a" using a by (simp add: created_def)
    from f(4) False nc have
      "waiting (step h ev) a = waiting h a
       \<and> (pending (step h ev) = Some a \<longrightarrow> pending h = Some a)" by blast
    moreover have "\<forall>e\<in>set es. \<not> commit_of a e \<and> (\<forall>b i hk. e \<noteq> Invoke a b i hk)"
      using f(2) f(3) False nc by blast
    ultimately show ?thesis by (simp add: since_append [OF f(1)])
  qed
  then show "waiting (step h ev) a = waiting h a"
    and "pending (step h ev) = Some a \<longrightarrow> pending h = Some a"
    and "\<forall>e\<in>set (since h (step h ev)). \<not> commit_of a e \<and> (\<forall>b i hk. e \<noteq> Invoke a b i hk)"
    by blast+
qed

lemma step_superseded:
  assumes a: "a < fresh h" and p: "pending h \<noteq> Some a"
  shows "pending (step h ev) \<noteq> Some a"
    and "\<forall>e\<in>set (since h (step h ev)). \<not> commit_of a e \<and> (\<forall>b i hk. e \<noteq> Invoke a b i hk)"
proof -
  have "pending (step h ev) \<noteq> Some a
        \<and> (\<forall>e\<in>set (since h (step h ev)). \<not> commit_of a e \<and> (\<forall>b i hk. e \<noteq> Invoke a b i hk))"
  proof (cases "actor ev = Some a")
    case True
    from own_step [OF True a] p show ?thesis unfolding own_def by blast
  next
    case False
    with step_others [OF a, of ev] p show ?thesis by blast
  qed
  then show "pending (step h ev) \<noteq> Some a"
    and "\<forall>e\<in>set (since h (step h ev)). \<not> commit_of a e \<and> (\<forall>b i hk. e \<noteq> Invoke a b i hk)"
    by blast+
qed



lemma run_Nil: "run h [] = h"
  by (simp add: run_def)

lemma run_Cons: "run h (ev # evs) = run (step h ev) evs"
  by (simp add: run_def)

lemma run_snoc: "run h (evs @ [ev]) = step (run h evs) ev"
  by (simp add: run_def)

lemma run_grows:
  "fresh h \<le> fresh (run h evs) \<and> (\<exists>es. effects (run h evs) = effects h @ es)"
proof (induction evs rule: rev_induct)
  case Nil
  show ?case by (simp add: run_Nil)
next
  case (snoc ev evs)
  then obtain es where 1: "fresh h \<le> fresh (run h evs)" "effects (run h evs) = effects h @ es"
    by blast
  from step_grows [of "run h evs" ev] obtain es' where
    2: "fresh (run h evs) \<le> fresh (step (run h evs) ev)"
       "effects (step (run h evs) ev) = effects (run h evs) @ es'" by blast
  from 1 2 show ?case by (simp add: run_snoc)
qed

lemma since_run_snoc:
  "since h (run h (evs @ [ev])) = since h (run h evs) @ since (run h evs) (step (run h evs) ev)"
proof -
  from run_grows [of h evs] obtain es where 1: "effects (run h evs) = effects h @ es" by blast
  from step_grows(2) [of "run h evs" ev] obtain es' where
    2: "effects (step (run h evs) ev) = effects (run h evs) @ es'" by blast
  from 1 2 show ?thesis by (simp add: run_snoc since_def)
qed

lemma since_step_run:
  "since h (step (run h evs) ev) = since h (run h evs) @ since (run h evs) (step (run h evs) ev)"
  using since_run_snoc [of h evs ev] by (simp add: run_snoc)

lemma run_superseded:
  assumes a: "a < fresh h" and p: "pending h \<noteq> Some a"
  shows "pending (run h evs) \<noteq> Some a
         \<and> (\<forall>e\<in>set (since h (run h evs)). \<not> commit_of a e \<and> (\<forall>b i hk. e \<noteq> Invoke a b i hk))"
proof (induction evs rule: rev_induct)
  case Nil
  from p show ?case by (simp add: run_Nil since_same)
next
  case (snoc ev evs)
  from a run_grows [of h evs] have a': "a < fresh (run h evs)" by simp
  from snoc have p': "pending (run h evs) \<noteq> Some a" by blast
  from step_superseded [OF a' p', of ev] snoc show ?case
    by (simp add: run_snoc since_step_run ball_Un)
qed



subsection \<open>Identities in use\<close>

lemma sound_init: "sound (History_init r)"
  by (simp add: sound_def History_init_def)

lemma sound_step:
  assumes "sound h"
  shows "sound (step h ev)"
proof -
  from assms have w: "\<And>k. waiting h k \<noteq> None \<Longrightarrow> k < fresh h"
    and c: "\<And>e k. e \<in> set (effects h) \<Longrightarrow> commit_of k e \<Longrightarrow> k < fresh h"
    unfolding sound_def by blast+
  from frame_step [of ev h] obtain es where f:
    "fresh h \<le> fresh (step h ev)"
    "effects (step h ev) = effects h @ es"
    "\<forall>e\<in>set es. \<forall>k. commit_of k e \<longrightarrow> actor ev = Some k"
    "\<forall>k. \<not> actor ev = Some k \<longrightarrow> \<not> created h (step h ev) k \<longrightarrow>
          waiting (step h ev) k = waiting h k
          \<and> (pending (step h ev) = Some k \<longrightarrow> pending h = Some k)"
    by (rule frameE)
  have 1: "k < fresh (step h ev)" if k: "waiting (step h ev) k \<noteq> None" for k
  proof (cases "waiting h k")
    case (Some nav)
    with w [of k] f(1) show ?thesis by simp
  next
    case None
    show ?thesis
    proof (cases "actor ev = Some k")
      case True
      with None have "step h ev = h" by (simp add: idle_step)
      with None k show ?thesis by simp
    next
      case False
      with f(4) None k have "created h (step h ev) k" by force
      then show ?thesis by (simp add: created_def)
    qed
  qed
  have 2: "k < fresh (step h ev)" if e: "e \<in> set (effects (step h ev))" "commit_of k e" for e k
  proof (cases "e \<in> set (effects h)")
    case True
    with c e(2) f(1) show ?thesis by force
  next
    case False
    with e f(2) have "e \<in> set es" by simp
    with f(3) e(2) have t: "actor ev = Some k" by blast
    have "waiting h k \<noteq> None"
    proof
      assume "waiting h k = None"
      with t have "step h ev = h" by (simp add: idle_step)
      with e(1) False show False by simp
    qed
    with w [of k] f(1) show ?thesis by simp
  qed
  show ?thesis unfolding sound_def using 1 2 by blast
qed

lemma sound_run: "sound h \<Longrightarrow> sound (run h evs)"
  by (induction evs rule: rev_induct) (simp_all add: run_Nil run_snoc sound_step)


subsection \<open>Duplicate navigation\<close>

text \<open>
  C8. A call of \<^verbatim>\<open>transitionTo\<close> whose route is the same as the current one (path, query, hash
  and params) with a matched chain of the same length: the engine asks for \<^verbatim>\<open>ensureURL()\<close>,
  which replaces the entry, and then the abort callback gets \<^verbatim>\<open>NavigationDuplicated\<close>: it
  calls the abort callback of the caller and, when the engine is not ready, the ready-error
  callbacks. Nothing else is done: no error callback and no warning, no guard, no commit;
  the current route, the pending one and the navigations that wait are as before.
\<close>

theorem duplicate_navigation_aborts:
  assumes "router_match (router h) location (snd (current h)) = Inr route"
    and "isSameRoute route (snd (current h))"
    and "length (route_matched route) = length (route_matched (snd (current h)))"
  shows "since h (transitionTo h location oc onAbort) =
           EnsureURL False # AbortCb (fresh h) (JErr (NavigationDuplicated route))
           # (case onAbort of None \<Rightarrow> []
              | Some c \<Rightarrow> [UserAbort c (JErr (NavigationDuplicated route))])
           @ (if ready h then []
              else map (\<lambda>c. ReadyErrorCb c (JErr (NavigationDuplicated route))) (readyErrorCbs h))
         \<and> (\<forall>e\<in>set (since h (transitionTo h location oc onAbort)).
               \<not> is_error_report e \<and> \<not> is_invoke e \<and> (\<forall>k. e \<noteq> UpdateRoute k))
         \<and> current (transitionTo h location oc onAbort) = current h
         \<and> pending (transitionTo h location oc onAbort) = pending h
         \<and> waiting (transitionTo h location oc onAbort) = waiting h"
proof -
  from assms(2,3) have d: "duplicate h route" by (simp add: duplicate_def)
  note t = transitionTo_duplicate [OF assms(1) d, of oc onAbort]
  have e: "abort_effects h (fresh h) onAbort (JErr (NavigationDuplicated route)) =
           AbortCb (fresh h) (JErr (NavigationDuplicated route))
           # (case onAbort of None \<Rightarrow> []
              | Some c \<Rightarrow> [UserAbort c (JErr (NavigationDuplicated route))])
           @ (if ready h then []
              else map (\<lambda>c. ReadyErrorCb c (JErr (NavigationDuplicated route))) (readyErrorCbs h))"
    by (simp add: abort_effects_def isNavigationDuplicated_def js_truthy_def)
  have s: "since h (transitionTo h location oc onAbort) =
           EnsureURL False # abort_effects h (fresh h) onAbort (JErr (NavigationDuplicated route))"
    by (simp add: t since_def)
  show ?thesis
    unfolding s e
    by (auto simp: t is_error_report_def is_invoke_def split: option.splits)
qed

subsection \<open>A navigation that is superseded\<close>

text \<open>
  C1, as the code has it. In a state of a run in which the navigation \<open>a\<close> waits in a guard,
  a call of \<^verbatim>\<open>transitionTo\<close> whose route is found and is not a duplicate of the current one
  makes its own route the pending one. From then on, whatever happens, \<open>a\<close> does not
  commit and none of its guards is called: no \<^verbatim>\<open>updateRoute\<close>, no listener, no after hook and
  no completion callback for \<open>a\<close>. When the guard in which \<open>a\<close> waits proceeds, \<open>a\<close> aborts
  without a value and does nothing else.
\<close>

theorem superseded_navigation_never_commits:
  assumes "h = run (History_init r) evs0"
    and "waiting h a = Some nav"
    and "router_match (router h) location (snd (current h)) = Inr route"
    and "\<not> duplicate h route"
    and "h' = run h (Navigate location oc onAbort # evs)"
  shows "pending (step h (Navigate location oc onAbort)) = Some (fresh h)
         \<and> a \<noteq> fresh h
         \<and> (\<forall>e\<in>set (since h h'). \<not> commit_of a e \<and> (\<forall>b i hook. e \<noteq> Invoke a b i hook))
         \<and> (\<forall>nav' v. waiting h' a = Some nav' \<longrightarrow>
               v \<noteq> JFalse \<longrightarrow> \<not> isError v \<longrightarrow> \<not> is_redirect v \<longrightarrow>
               step h' (Next a v)
                 = abort (h'\<lparr>waiting := (waiting h')(a := None)\<rparr>) a (nav_onAbort nav') Undefined)"
proof -
  let ?h1 = "step h (Navigate location oc onAbort)"
  have "sound h" unfolding assms(1) by (rule sound_run [OF sound_init])
  with assms(2) have a: "a < fresh h" unfolding sound_def by force
  from transitionTo_started [OF assms(3,4), of oc onAbort] obtain j hook where
    t: "?h1 = invokes (h\<lparr>fresh := Suc (fresh h), pending := Some (fresh h)\<rparr>) (fresh h)
                (start_nav h route oc onAbort) j hook"
    by (auto simp: step_def)
  have p1: "pending ?h1 = Some (fresh h)" and f1: "fresh ?h1 = Suc (fresh h)"
    and e1: "effects ?h1 = effects h @ [Invoke (fresh h) False j hook]"
    by (simp_all add: t invokes_fields start_nav_def)
  from a p1 have np: "pending ?h1 \<noteq> Some a" by simp
  from a f1 have a1: "a < fresh ?h1" by simp
  have h': "h' = run ?h1 evs" by (simp add: assms(5) run_Cons)
  from run_superseded [OF a1 np, of evs] have
    r: "pending h' \<noteq> Some a"
       "\<forall>e\<in>set (since ?h1 h'). \<not> commit_of a e \<and> (\<forall>b i hook. e \<noteq> Invoke a b i hook)"
    by (simp_all add: h')
  from run_grows [of ?h1 evs] obtain es where es: "effects h' = effects ?h1 @ es"
    by (auto simp: h')
  have s: "since h h' = Invoke (fresh h) False j hook # since ?h1 h'"
    using es e1 by (simp add: since_def)
  have 3: "\<forall>e\<in>set (since h h'). \<not> commit_of a e \<and> (\<forall>b i hook. e \<noteq> Invoke a b i hook)"
    using r(2) a by (auto simp: s commit_of_def)
  have 4: "step h' (Next a v)
             = abort (h'\<lparr>waiting := (waiting h')(a := None)\<rparr>) a (nav_onAbort nav') Undefined"
    if "waiting h' a = Some nav'" "v \<noteq> JFalse" "\<not> isError v" "\<not> is_redirect v" for nav' v
  proof -
    have "nav_onAbort (note_postEnterCb nav' v) = nav_onAbort nav'"
      by (simp add: note_postEnterCb_def split: option.splits Hook.splits JSVal.splits)
    with that r(1) show ?thesis
      by (simp add: step_def hook_next_def Let_def run_second_eq run_first_eq)
  qed
  from p1 a 3 4 show ?thesis by blast
qed

subsection \<open>A guard that aborts\<close>


section \<open>Examples for the engine\<close>

lemma ex_page_table:
  "pathList (createMatcher ex_env ex_page_routes) = [''/x'', ''/y'', ''/z'']"
  "pathMap (createMatcher ex_env ex_page_routes)
     = [''/x'' \<mapsto> ex_record ''/x'' None None None,
        ''/y'' \<mapsto> ex_record ''/y'' None None None,
        ''/z'' \<mapsto> ex_record ''/z'' None None None]"
  "nameMap (createMatcher ex_env ex_page_routes) = Map.empty"
proof -
  have "addRouteRecords ex_env ex_page_routes empty_RouteMap =
    \<lparr>pathList = [''/x'', ''/y'', ''/z''],
     pathMap = [''/x'' \<mapsto> ex_record ''/x'' None None None,
        ''/y'' \<mapsto> ex_record ''/y'' None None None,
        ''/z'' \<mapsto> ex_record ''/z'' None None None],
     nameMap = Map.empty\<rparr>"
    by (simp add: add_simps ex_simps ex_page_routes_def)
  note t = createMatcher_eval [OF this]
  show "pathList (createMatcher ex_env ex_page_routes) = [''/x'', ''/y'', ''/z'']"
    by (simp add: t ensure_wildcard_last_eq)
  show "pathMap (createMatcher ex_env ex_page_routes)
     = [''/x'' \<mapsto> ex_record ''/x'' None None None,
        ''/y'' \<mapsto> ex_record ''/y'' None None None,
        ''/z'' \<mapsto> ex_record ''/z'' None None None]"
    by (simp add: t)
  show "nameMap (createMatcher ex_env ex_page_routes) = Map.empty"
    by (simp add: t)
qed

lemma page_lookup:
  "match_lookup ex_env (createMatcher ex_env ex_page_routes) (RawString ''/x'') (Some cur) None
     = Inr (Some (ex_record ''/x'' None None None), (ex_location ''/x'')\<lparr>loc_params := Some []\<rparr>, None)"
  "match_lookup ex_env (createMatcher ex_env ex_page_routes) (RawString ''/y'') (Some cur) None
     = Inr (Some (ex_record ''/y'' None None None), (ex_location ''/y'')\<lparr>loc_params := Some []\<rparr>, None)"
  "match_lookup ex_env (createMatcher ex_env ex_page_routes) (RawString ''/z'') (Some cur) None
     = Inr (Some (ex_record ''/z'' None None None), (ex_location ''/z'')\<lparr>loc_params := Some []\<rparr>, None)"
  by (simp_all add: lookup_simps ex_page_table)

lemma page_normal: "case Some (ex_record path None None None) of None \<Rightarrow> True | Some r \<Rightarrow> normal_record r"
  by (simp add: normal_record_def ex_record_def redirect_truthy_def truthy_def)

lemma page_match:
  "router_match ex_router (RawString ''/x'') cur = Inr (ex_page ''/x'')"
  "router_match ex_router (RawString ''/y'') cur = Inr (ex_page ''/y'')"
  "router_match ex_router (RawString ''/z'') cur = Inr (ex_page ''/z'')"
  by (simp_all add: ex_router_def VueRouter_match_def ex_page_def
        match_normal_or_none [OF page_lookup(1) page_normal]
        match_normal_or_none [OF page_lookup(2) page_normal]
        match_normal_or_none [OF page_lookup(3) page_normal])

lemma page_fields:
  "route_matched (ex_page path) = [ex_record path None None None]"
  "route_path (ex_page path) = (if path = [] then ''/'' else path)"
  "route_query (ex_page path) = []"
  "route_hash (ex_page path) = []"
  "route_params (ex_page path) = []"
  by (simp_all add: ex_page_def createRoute_def ex_record_def ex_location_def Let_def ex_env_fields
        truthy_def)

lemma page_differ:
  "ex_record ''/x'' None None None \<noteq> ex_record ''/y'' None None None"
  "ex_record ''/x'' None None None \<noteq> ex_record ''/z'' None None None"
  "ex_record ''/y'' None None None \<noteq> ex_record ''/z'' None None None"
  "rec_components (ex_record path None None None) = [(''default'', None)]"
  "rec_instances (ex_record path None None None) = []"
  "rec_beforeEnter (ex_record path None None None) = None"
  by (simp_all add: ex_record_def)

lemmas engine_simps = run_def step_def transitionTo_def confirmTransition_def
  hook_next_def hook_throws_def iterator_def emit_def abort_def transitionTo_onAbort_def
  transitionTo_onComplete_def updateRoute_def call_onComplete_def
  first_queue_def second_queue_def resolveQueue_def extractLeaveGuards_def
  extractUpdateHooks_def extractEnterGuards_def extractGuards_def flatMapComponents_def
  flatten_def extractGuard_def bindGuard_def
  register_hook_def unregister_hook_def register_fst register_snd register_def
  listen_def onReady_def onError_def History_init_def
  isSameRoute_def START_def page_fields page_differ page_match
  is_redirect_def isError_def isNavigationDuplicated_def js_truthy_def note_postEnterCb_def
  History_push_def History_replace_def wants_replace_def redirect_location_def Let_def

lemma ex_router_fields:
  "beforeHooks ex_router = []" "resolveHooks ex_router = []" "afterHooks ex_router = []"
  "app ex_router = False"
  by (simp_all add: ex_router_def)

lemma to_x_state: "run (History_init ex_router) ex_to_x = ex_on_x"
  by (simp add: ex_to_x_def ex_setup_def engine_simps ex_router_fields ex_on_x_def ex_hooked_def)

lemma hooked_fields:
  "beforeHooks ex_hooked = [Some 7]" "resolveHooks ex_hooked = [Some 8]"
  "afterHooks ex_hooked = [Some 9]" "app ex_hooked = False"
  "router_match ex_hooked = router_match ex_router"
  by (simp_all add: ex_hooked_def ex_router_def)

lemma on_x_fields:
  "router ex_on_x = ex_hooked" "current ex_on_x = (1, ex_page ''/x'')" "pending ex_on_x = None"
  "cb ex_on_x = Some 4" "ready ex_on_x = True" "readyCbs ex_on_x = [10]"
  "readyErrorCbs ex_on_x = [11]" "errorCbs ex_on_x = [6]" "waiting ex_on_x = Map.empty"
  "fresh ex_on_x = 2"
  by (simp_all add: ex_on_x_def)

theorem duplicate_navigation_aborts_witness:
  "router_match (router (run (History_init ex_router) ex_to_x)) (RawString ''/x'')
       (snd (current (run (History_init ex_router) ex_to_x)))
     = Inr (ex_page ''/x'')
   \<and> current (run (History_init ex_router) ex_to_x) = (1, ex_page ''/x'')
   \<and> isSameRoute (ex_page ''/x'') (snd (current (run (History_init ex_router) ex_to_x)))
   \<and> since (run (History_init ex_router) ex_to_x)
        (transitionTo (run (History_init ex_router) ex_to_x) (RawString ''/x'') (UserCallback 2) (Some 3))
     = [EnsureURL False, AbortCb 2 (JErr (NavigationDuplicated (ex_page ''/x''))),
        UserAbort 3 (JErr (NavigationDuplicated (ex_page ''/x'')))]
   \<and> current (transitionTo (run (History_init ex_router) ex_to_x) (RawString ''/x'')
        (UserCallback 2) (Some 3)) = (1, ex_page ''/x'')
   \<and> pending (transitionTo (run (History_init ex_router) ex_to_x) (RawString ''/x'')
        (UserCallback 2) (Some 3)) = None"
proof -
  have m: "router_match (router ex_on_x) (RawString ''/x'') (snd (current ex_on_x))
             = Inr (ex_page ''/x'')"
    by (simp add: on_x_fields hooked_fields page_match)
  have s: "isSameRoute (ex_page ''/x'') (snd (current ex_on_x))"
    by (simp add: on_x_fields isSameRoute_def)
  have l: "length (route_matched (ex_page ''/x'')) = length (route_matched (snd (current ex_on_x)))"
    by (simp add: on_x_fields)
  from duplicate_navigation_aborts [OF m s l, of "UserCallback 2" "Some 3"] m s
  show ?thesis
    by (simp add: to_x_state on_x_fields)
qed

lemmas on_x_simps = engine_simps hooked_fields ex_router_fields ex_on_x_def ex_nav_def
  ex_first_def ex_second_def since_def




lemma y_first:
  "waiting (run ex_on_x [Navigate (RawString ''/y'') (UserCallback 2) (Some 3)]) 2
     = Some (ex_nav ''/y'' (ex_first ''/y'') 1 False)"
  "pending (run ex_on_x [Navigate (RawString ''/y'') (UserCallback 2) (Some 3)]) = Some 2"
  "fresh (run ex_on_x [Navigate (RawString ''/y'') (UserCallback 2) (Some 3)]) = 3"
  "current (run ex_on_x [Navigate (RawString ''/y'') (UserCallback 2) (Some 3)]) = (1, ex_page ''/x'')"
  "router (run ex_on_x [Navigate (RawString ''/y'') (UserCallback 2) (Some 3)]) = ex_hooked"
  by (simp_all add: on_x_simps)

theorem superseded_navigation_never_commits_witness:
  "run (History_init ex_router) (ex_to_x @ [Navigate (RawString ''/y'') (UserCallback 2) (Some 3)])
     = run ex_on_x [Navigate (RawString ''/y'') (UserCallback 2) (Some 3)]
   \<and> waiting (run ex_on_x [Navigate (RawString ''/y'') (UserCallback 2) (Some 3)]) 2
     = Some (ex_nav ''/y'' (ex_first ''/y'') 1 False)
   \<and> router_match (router (run ex_on_x [Navigate (RawString ''/y'') (UserCallback 2) (Some 3)]))
        (RawString ''/z'')
        (snd (current (run ex_on_x [Navigate (RawString ''/y'') (UserCallback 2) (Some 3)])))
     = Inr (ex_page ''/z'')
   \<and> \<not> duplicate (run ex_on_x [Navigate (RawString ''/y'') (UserCallback 2) (Some 3)])
         (ex_page ''/z'')
   \<and> pending (step (run ex_on_x [Navigate (RawString ''/y'') (UserCallback 2) (Some 3)])
        (Navigate (RawString ''/z'') (UserCallback 2) (Some 3))) = Some 3
   \<and> since (run ex_on_x [Navigate (RawString ''/y'') (UserCallback 2) (Some 3)])
        (run (run ex_on_x [Navigate (RawString ''/y'') (UserCallback 2) (Some 3)])
           [Navigate (RawString ''/z'') (UserCallback 2) (Some 3),
            Next 3 Undefined, Next 2 Undefined, Next 3 Undefined, Next 3 Undefined])
     = [Invoke 3 False 1 (PlainGuard 7),
        Invoke 3 False 3 (ResolveAsyncComponents [ex_record ''/z'' None None None]),
        AbortCb 2 Undefined, UserAbort 3 Undefined,
        Invoke 3 True 1 (PlainGuard 8),
        UpdateRoute 3, Listener 4 3, AfterHook 9 3, UserComplete 2 3, EnsureURL False]
   \<and> UpdateRoute 2 \<notin> set (since (run ex_on_x [Navigate (RawString ''/y'') (UserCallback 2) (Some 3)])
        (run (run ex_on_x [Navigate (RawString ''/y'') (UserCallback 2) (Some 3)])
           [Navigate (RawString ''/z'') (UserCallback 2) (Some 3),
            Next 3 Undefined, Next 2 Undefined, Next 3 Undefined, Next 3 Undefined]))
   \<and> UserComplete 2 2 \<notin> set (since (run ex_on_x [Navigate (RawString ''/y'') (UserCallback 2) (Some 3)])
        (run (run ex_on_x [Navigate (RawString ''/y'') (UserCallback 2) (Some 3)])
           [Navigate (RawString ''/z'') (UserCallback 2) (Some 3),
            Next 3 Undefined, Next 2 Undefined, Next 3 Undefined, Next 3 Undefined]))"
proof -
  let ?a = "Navigate (RawString ''/y'') (UserCallback 2) (Some 3)"
  let ?h = "run ex_on_x [?a]"
  let ?evs = "[Next 3 Undefined, Next 2 Undefined, Next 3 Undefined, Next 3 Undefined]"
  let ?h' = "run ?h (Navigate (RawString ''/z'') (UserCallback 2) (Some 3) # ?evs)"
  have r: "?h = run (History_init ex_router) (ex_to_x @ [?a])"
    by (simp add: run_def to_x_state [unfolded run_def])
  have m: "router_match (router ?h) (RawString ''/z'') (snd (current ?h)) = Inr (ex_page ''/z'')"
    by (simp add: y_first hooked_fields page_match)
  have d: "\<not> duplicate ?h (ex_page ''/z'')"
    by (simp add: duplicate_def y_first isSameRoute_def page_fields)
  note T = superseded_navigation_never_commits [OF r y_first(1) m d refl,
      of "UserCallback 2" "Some 3" ?evs]
  from T have 1: "pending (step ?h (Navigate (RawString ''/z'') (UserCallback 2) (Some 3)))
      = Some (fresh ?h)"
    by (rule conjunct1)
  from T have 2: "\<forall>e\<in>set (since ?h ?h'). \<not> commit_of 2 e \<and> (\<forall>b i hook. e \<noteq> Invoke 2 b i hook)"
    by (rule conjunct2 [THEN conjunct2, THEN conjunct1])
  have 3: "UpdateRoute 2 \<notin> set (since ?h ?h')" "UserComplete 2 2 \<notin> set (since ?h ?h')"
    using 2 by (auto simp: commit_of_def)
  have 4: "since ?h ?h'
     = [Invoke 3 False 1 (PlainGuard 7),
        Invoke 3 False 3 (ResolveAsyncComponents [ex_record ''/z'' None None None]),
        AbortCb 2 Undefined, UserAbort 3 Undefined,
        Invoke 3 True 1 (PlainGuard 8),
        UpdateRoute 3, Listener 4 3, AfterHook 9 3, UserComplete 2 3, EnsureURL False]"
    by (simp add: on_x_simps)
  from r [symmetric] y_first(1) m d 1 3 4 show ?thesis
    by (simp add: y_first(3))
qed

theorem duplicate_second_navigation_counterexample:
  "run (History_init ex_router) (ex_to_x @ [Navigate (RawString ''/y'') (UserCallback 2) (Some 3)])
     = run ex_on_x [Navigate (RawString ''/y'') (UserCallback 2) (Some 3)]
   \<and> waiting (run ex_on_x [Navigate (RawString ''/y'') (UserCallback 2) (Some 3)]) 2
     = Some (ex_nav ''/y'' (ex_first ''/y'') 1 False)
   \<and> pending (run ex_on_x [Navigate (RawString ''/y'') (UserCallback 2) (Some 3)]) = Some 2
   \<and> since (run ex_on_x [Navigate (RawString ''/y'') (UserCallback 2) (Some 3)])
        (run ex_on_x [Navigate (RawString ''/y'') (UserCallback 2) (Some 3),
                      Navigate (RawString ''/x'') (UserCallback 5) (Some 3)])
     = [EnsureURL False, AbortCb 3 (JErr (NavigationDuplicated (ex_page ''/x''))),
        UserAbort 3 (JErr (NavigationDuplicated (ex_page ''/x'')))]
   \<and> pending (run ex_on_x [Navigate (RawString ''/y'') (UserCallback 2) (Some 3),
                            Navigate (RawString ''/x'') (UserCallback 5) (Some 3)]) = Some 2
   \<and> since (run ex_on_x [Navigate (RawString ''/y'') (UserCallback 2) (Some 3),
                          Navigate (RawString ''/x'') (UserCallback 5) (Some 3)])
        (run ex_on_x [Navigate (RawString ''/y'') (UserCallback 2) (Some 3),
                      Navigate (RawString ''/x'') (UserCallback 5) (Some 3),
                      Next 2 Undefined, Next 2 Undefined, Next 2 Undefined])
     = [Invoke 2 False 3 (ResolveAsyncComponents [ex_record ''/y'' None None None]),
        Invoke 2 True 1 (PlainGuard 8),
        UpdateRoute 2, Listener 4 2, AfterHook 9 2, UserComplete 2 2, EnsureURL False]
   \<and> current (run ex_on_x [Navigate (RawString ''/y'') (UserCallback 2) (Some 3),
                            Navigate (RawString ''/x'') (UserCallback 5) (Some 3),
                            Next 2 Undefined, Next 2 Undefined, Next 2 Undefined])
     = (2, ex_page ''/y'')"
proof -
  let ?a = "Navigate (RawString ''/y'') (UserCallback 2) (Some 3)"
  let ?b = "Navigate (RawString ''/x'') (UserCallback 5) (Some 3)"
  have r: "run (History_init ex_router) (ex_to_x @ [?a]) = run ex_on_x [?a]"
    by (simp add: run_def to_x_state [unfolded run_def])
  have 1: "since (run ex_on_x [?a]) (run ex_on_x [?a, ?b])
     = [EnsureURL False, AbortCb 3 (JErr (NavigationDuplicated (ex_page ''/x''))),
        UserAbort 3 (JErr (NavigationDuplicated (ex_page ''/x'')))]"
    by (simp add: on_x_simps)
  have 2: "pending (run ex_on_x [?a, ?b]) = Some 2"
    by (simp add: on_x_simps)
  have 3: "since (run ex_on_x [?a, ?b])
        (run ex_on_x [?a, ?b, Next 2 Undefined, Next 2 Undefined, Next 2 Undefined])
     = [Invoke 2 False 3 (ResolveAsyncComponents [ex_record ''/y'' None None None]),
        Invoke 2 True 1 (PlainGuard 8),
        UpdateRoute 2, Listener 4 2, AfterHook 9 2, UserComplete 2 2, EnsureURL False]"
    by (simp add: on_x_simps)
  have 4: "current (run ex_on_x [?a, ?b, Next 2 Undefined, Next 2 Undefined, Next 2 Undefined])
     = (2, ex_page ''/y'')"
    by (simp add: on_x_simps)
  from r y_first(1,2) 1 2 3 4 show ?thesis by simp
qed

theorem hook_methods_deregister_witness:
  "fst (beforeEach ex_router 7) = ex_router\<lparr>beforeHooks := [Some 7]\<rparr>
   \<and> Some 7 \<in> set (hooks BeforeHooks (fst (beforeEach ex_router 7)))
   \<and> count_list (hooks BeforeHooks (fst (beforeEach ex_router 7))) (Some 7) = 1
   \<and> hooks BeforeHooks (snd (register BeforeHooks ex_router 7) (fst (beforeEach ex_router 7))) = []
   \<and> Some 5 \<notin> set (hooks BeforeHooks (fst (beforeEach ex_router 7)))
   \<and> snd (register BeforeHooks ex_router 5) (fst (beforeEach ex_router 7))
     = fst (beforeEach ex_router 7)
   \<and> hooks BeforeHooks (router (register_hook (History_init ex_router) BeforeHooks 7)) = [Some 7]
   \<and> hooks BeforeHooks (router (unregister_hook
        (register_hook (History_init ex_router) BeforeHooks 7) BeforeHooks 7)) = []
   \<and> effects (run (History_init ex_router)
        [Register BeforeHooks 7, Navigate (RawString ''/x'') NoCallback None])
     = [Invoke 1 False 0 (PlainGuard 7)]
   \<and> effects (run (History_init ex_router)
        [Register BeforeHooks 7, Unregister BeforeHooks 7,
         Navigate (RawString ''/x'') NoCallback None])
     = [Invoke 1 False 1 (ResolveAsyncComponents [ex_record ''/x'' None None None])]"
proof -
  let ?r' = "fst (beforeEach ex_router 7)"
  note T = hook_methods_deregister [of ex_router 7 ?r' BeforeHooks "History_init ex_router"]
  note U = hook_methods_deregister [of ex_router 5 ?r' BeforeHooks
      "register_hook (History_init ex_router) BeforeHooks 7"]
  note V = hook_methods_deregister [of ex_router 7 ?r' BeforeHooks
      "register_hook (History_init ex_router) BeforeHooks 7"]
  from T have 1: "fst (beforeEach ex_router 7) = ex_router\<lparr>beforeHooks := [Some 7]\<rparr>"
    by (simp add: ex_router_fields)
  have h: "hooks BeforeHooks ?r' = [Some 7]" by (simp add: 1 hooks_def)
  have 2: "Some 7 \<in> set (hooks BeforeHooks ?r')" by (simp add: h)
  from T 2 have "\<exists>pre post. hooks BeforeHooks ?r' = pre @ Some 7 # post \<and> Some 7 \<notin> set pre
      \<and> hooks BeforeHooks (snd (register BeforeHooks ex_router 7) ?r') = pre @ post"
    by blast
  then have 3: "hooks BeforeHooks (snd (register BeforeHooks ex_router 7) ?r') = []"
    by (auto simp: h Cons_eq_append_conv)
  have 4: "Some 5 \<notin> set (hooks BeforeHooks ?r')" by (simp add: h)
  from U 4 have 5: "snd (register BeforeHooks ex_router 5) ?r' = ?r'" by blast
  from T have 6: "hooks BeforeHooks (router (register_hook (History_init ex_router) BeforeHooks 7))
      = [Some 7]"
    by (simp add: hooks_def History_init_def ex_router_fields)
  from V 6 have 7: "hooks BeforeHooks (router (unregister_hook
        (register_hook (History_init ex_router) BeforeHooks 7) BeforeHooks 7)) = []"
    by simp
  have 8: "effects (run (History_init ex_router)
        [Register BeforeHooks 7, Navigate (RawString ''/x'') NoCallback None])
     = [Invoke 1 False 0 (PlainGuard 7)]"
    by (simp add: engine_simps ex_router_fields)
  have 9: "effects (run (History_init ex_router)
        [Register BeforeHooks 7, Unregister BeforeHooks 7,
         Navigate (RawString ''/x'') NoCallback None])
     = [Invoke 1 False 1 (ResolveAsyncComponents [ex_record ''/x'' None None None])]"
    by (simp add: engine_simps ex_router_fields)
  have 10: "count_list (hooks BeforeHooks ?r') (Some 7) = 1" by (simp add: h)
  from 1 2 3 4 5 6 7 8 9 10 show ?thesis by blast
qed

theorem hook_registered_twice_counterexample:
  "hooks BeforeHooks (router (run (History_init ex_router)
        [Register BeforeHooks 7, Register BeforeHooks 7])) = [Some 7, Some 7]
   \<and> hooks BeforeHooks (router (run (History_init ex_router)
        [Register BeforeHooks 7, Register BeforeHooks 7, Unregister BeforeHooks 7])) = [Some 7]
   \<and> effects (run (History_init ex_router)
        [Register BeforeHooks 7, Register BeforeHooks 7, Unregister BeforeHooks 7,
         Navigate (RawString ''/x'') NoCallback None])
     = [Invoke 1 False 0 (PlainGuard 7)]"
  by (simp add: engine_simps ex_router_fields hooks_def)

section \<open>The order of the first queue\<close>

lemma first_calls_append: "first_calls n (es @ es') = first_calls n es @ first_calls n es'"
  by (simp add: first_calls_def)

lemma first_calls_none:
  "\<forall>i hk. Invoke n False i hk \<notin> set es \<Longrightarrow> first_calls n es = []"
proof (induction es)
  case Nil
  show ?case by (simp add: first_calls_def)
next
  case (Cons e es)
  then have "first_calls n es = []" by simp
  moreover from Cons.prems have "first_calls n [e] = []"
    by (cases e) (auto simp: first_calls_def)
  ultimately show ?case using first_calls_append [of n "[e]" es] by simp
qed

lemma first_calls_single:
  "first_calls n [Invoke n False j hook] = [hook]" "first_calls n [Invoke n True j hook] = []"
  by (simp_all add: first_calls_def)

lemma guards_of_append: "guards_of (q @ q') = guards_of q @ guards_of q'"
  by (simp add: guards_of_def)

lemma skip_none_guards:
  "skip_none q i = Some (j, hook) \<Longrightarrow>
     i \<le> j \<and> j - i < length q \<and> q ! (j - i) = Some hook
     \<and> guards_of (take (Suc (j - i)) q) = [hook]"
proof (induction q arbitrary: i)
  case Nil
  then show ?case by simp
next
  case (Cons x q)
  show ?case
  proof (cases x)
    case None
    with Cons.prems have "skip_none q (Suc i) = Some (j, hook)" by simp
    from Cons.IH [OF this] have ih: "Suc i \<le> j" "j - Suc i < length q"
      "q ! (j - Suc i) = Some hook" "guards_of (take (Suc (j - Suc i)) q) = [hook]" by auto
    then have "j - i = Suc (j - Suc i)" by simp
    with ih None show ?thesis by (simp add: guards_of_def)
  next
    case (Some h)
    with Cons.prems show ?thesis by (simp add: guards_of_def)
  qed
qed

lemma skip_none_no_guards: "skip_none q i = None \<Longrightarrow> guards_of q = []"
proof (induction q arbitrary: i)
  case Nil
  show ?case by (simp add: guards_of_def)
next
  case (Cons x q)
  then show ?case by (cases x) (auto simp: guards_of_def)
qed

lemma flatten_concat: "flatten (concat xss) = concat (map flatten xss)"
  by (induction xss) (simp_all add: flatten_def)

lemma flatMapComponents_record_guards:
  "flatMapComponents records (\<lambda>def instance m key.
      case extractGuard def name of
        NoGuard \<Rightarrow> EUndefined
      | OneGuard guard \<Rightarrow> ESingle (bind guard instance m key)
      | GuardArray gs \<Rightarrow> EArray (map (\<lambda>guard. bind guard instance m key) gs))
   = concat (map (record_guards name bind) records)"
  by (simp add: flatMapComponents_def record_guards_def [abs_def])

lemma extractLeaveGuards_eq:
  "extractLeaveGuards deactivated
     = concat (map (\<lambda>m. flatten (rev (record_guards BeforeRouteLeave bindGuard m))) (rev deactivated))"
  by (simp add: extractLeaveGuards_def extractGuards_def Let_def flatMapComponents_record_guards
        rev_concat flatten_concat rev_map o_def)

lemma extractUpdateHooks_eq:
  "extractUpdateHooks updated
     = concat (map (\<lambda>m. flatten (record_guards BeforeRouteUpdate bindGuard m)) updated)"
  by (simp add: extractUpdateHooks_def extractGuards_def Let_def flatMapComponents_record_guards
        flatten_concat o_def)

lemma note_postEnterCb_fields:
  "nav_queue (note_postEnterCb nav v) = nav_queue nav"
  "nav_index (note_postEnterCb nav v) = nav_index nav"
  "nav_second (note_postEnterCb nav v) = nav_second nav"
  by (simp_all add: note_postEnterCb_def split: option.splits Hook.splits JSVal.splits)

lemma quietI:
  assumes "waiting h' n = None" and "effects h' = effects h @ es"
    and "\<And>e. e \<in> set es \<Longrightarrow> \<not> is_invoke e"
  shows "quiet n h h'"
proof -
  have "\<forall>b i hk. Invoke n b i hk \<notin> set es"
  proof (intro allI notI)
    fix b i hk assume "Invoke n b i hk \<in> set es"
    from assms(3) [OF this] show False by (simp add: is_invoke_def)
  qed
  with assms(1,2) show ?thesis unfolding quiet_def by blast
qed

lemma quiet_abort:
  assumes "effects h1 = effects h @ es1" "waiting h1 n = None" "\<And>e. e \<in> set es1 \<Longrightarrow> \<not> is_invoke e"
  shows "quiet n h (abort h1 n oa err)"
  by (rule quietI [where es = "es1 @ abort_effects h1 n oa err"])
     (auto simp: abort_fields assms dest: abort_effects_plain)

lemma quiet_commits:
  assumes "effects h1 = effects h" "waiting h1 n = None"
  shows "quiet n h (commits h1 n nav)"
  by (rule quietI [where es = "commit_effects h1 n (nav_onComplete nav)
          @ (if app (router h1) then [NextTick n (nav_postEnterCbs nav)] else [])"])
     (auto simp: commits_fields assms is_invoke_def dest: commit_effects_own)

lemma enters_second_invokes:
  assumes "effects h1 = effects h" "nav_second nav"
  shows "enters_second n h (invokes h1 n nav j hook)"
  unfolding enters_second_def using assms by (simp add: invokes_fields)

lemma outcome_run_second:
  assumes "effects h1 = effects h" "waiting h1 n = None" "nav_second nav"
  shows "quiet n h (run_second h1 n nav q i) \<or> enters_second n h (run_second h1 n nav q i)"
proof (cases "pending h1 = Some n")
  case False
  have "quiet n h (abort h1 n (nav_onAbort nav) Undefined)"
    by (rule quiet_abort [where ?es1.0 = "[]"]) (simp_all add: assms)
  with False show ?thesis by (simp add: run_second_eq)
next
  case True
  show ?thesis
  proof (cases "skip_none q i")
    case None
    with True quiet_commits [OF assms(1,2)] show ?thesis by (simp add: run_second_eq)
  next
    case (Some x)
    obtain j hook where "x = (j, hook)" by (cases x)
    with Some True enters_second_invokes [OF assms(1,3)] show ?thesis
      by (simp add: run_second_eq)
  qed
qed

lemma quiet_transitionTo:
  assumes n: "n < fresh h1" and e1: "effects h1 = effects h @ es1" and w1: "waiting h1 n = None"
    and q1: "\<And>e. e \<in> set es1 \<Longrightarrow> \<not> is_invoke e"
  shows "quiet n h (transitionTo h1 loc oc oa)"
proof -
  from frame_transitionTo [of h1 loc oc oa] obtain es where f:
    "effects (transitionTo h1 loc oc oa) = effects h1 @ es"
    "\<forall>e\<in>set es. \<forall>k b i hk. e = Invoke k b i hk
        \<longrightarrow> False \<or> created h1 (transitionTo h1 loc oc oa) k"
    "\<forall>k. \<not> False \<longrightarrow> \<not> created h1 (transitionTo h1 loc oc oa) k \<longrightarrow>
            waiting (transitionTo h1 loc oc oa) k = waiting h1 k
            \<and> (pending (transitionTo h1 loc oc oa) = Some k \<longrightarrow> pending h1 = Some k)"
    by (rule frameE)
  have nc: "\<not> created h1 (transitionTo h1 loc oc oa) n" using n by (simp add: created_def)
  have "waiting (transitionTo h1 loc oc oa) n = None" using f(3) nc w1 by simp
  moreover have "effects (transitionTo h1 loc oc oa) = effects h @ es1 @ es"
    using e1 f(1) by simp
  moreover have "\<forall>b i hk. Invoke n b i hk \<notin> set (es1 @ es)"
  proof (intro allI notI)
    fix b i hk assume "Invoke n b i hk \<in> set (es1 @ es)"
    then consider "Invoke n b i hk \<in> set es1" | "Invoke n b i hk \<in> set es" by auto
    then show False
    proof cases
      case 1
      from q1 [OF 1] show False by (simp add: is_invoke_def)
    next
      case 2
      with f(2) nc show False by blast
    qed
  qed
  ultimately show ?thesis unfolding quiet_def by blast
qed

lemma hook_next_outcome:
  assumes n: "n < fresh h" and w: "waiting h n = Some nav"
  shows "quiet n h (hook_next h n v)
         \<or> ((nav_second nav
              \<or> skip_none (drop (Suc (nav_index nav)) (nav_queue nav)) (Suc (nav_index nav)) = None)
             \<and> enters_second n h (hook_next h n v))
         \<or> calls_next n nav v h (hook_next h n v)"
proof -
  define h1 where "h1 = h\<lparr>waiting := (waiting h)(n := None)\<rparr>"
  have h1: "effects h1 = effects h" "waiting h1 n = None" "fresh h1 = fresh h"
    "pending h1 = pending h" "router h1 = router h"
    by (simp_all add: h1_def)
  define nav' where "nav' = note_postEnterCb nav v"
  note nf = note_postEnterCb_fields [of nav v, folded nav'_def]
  consider (stop) "v = JFalse \<or> isError v"
    | (redirect) "\<not> (v = JFalse \<or> isError v)" "is_redirect v"
    | (continue) "\<not> (v = JFalse \<or> isError v)" "\<not> is_redirect v" by blast
  then show ?thesis
  proof cases
    case stop
    have "quiet n h (abort (emit [EnsureURL True] h1) n (nav_onAbort nav) v)"
      by (rule quiet_abort [where ?es1.0 = "[EnsureURL True]"])
         (simp_all add: emit_def h1 is_invoke_def)
    with stop w show ?thesis by (simp add: hook_next_def Let_def h1_def)
  next
    case redirect
    have "quiet n h (transitionTo (abort h1 n (nav_onAbort nav) Undefined) loc oc oa)" for loc oc oa
      by (rule quiet_transitionTo [where ?es1.0 = "abort_effects h1 n (nav_onAbort nav) Undefined"])
         (auto simp: abort_fields h1 n dest: abort_effects_plain)
    with redirect w show ?thesis
      by (simp add: hook_next_def Let_def h1_def [symmetric] History_push_def History_replace_def)
  next
    case continue
    show ?thesis
    proof (cases "nav_second nav")
      case True
      then have "nav_second nav'" by (simp add: nf)
      from outcome_run_second [OF h1(1,2) this]
      have "quiet n h (run_second h1 n nav' (drop (Suc (nav_index nav)) (nav_queue nav)) (Suc (nav_index nav)))
          \<or> enters_second n h (run_second h1 n nav' (drop (Suc (nav_index nav)) (nav_queue nav)) (Suc (nav_index nav)))" .
      moreover have "hook_next h n v
          = run_second h1 n nav' (drop (Suc (nav_index nav)) (nav_queue nav)) (Suc (nav_index nav))"
        using continue w True
        by (simp add: hook_next_def Let_def h1_def [symmetric] nav'_def [symmetric] nf)
      ultimately show ?thesis using True by auto
    next
      case False
      let ?q = "drop (Suc (nav_index nav)) (nav_queue nav)" and ?i = "Suc (nav_index nav)"
      have eq: "hook_next h n v = run_first h1 n nav' ?q ?i"
        using continue w False
        by (simp add: hook_next_def Let_def h1_def [symmetric] nav'_def [symmetric] nf)
      show ?thesis
      proof (cases "pending h = Some n")
        case np: False
        have "quiet n h (abort h1 n (nav_onAbort nav') Undefined)"
          by (rule quiet_abort [where ?es1.0 = "[]"]) (simp_all add: h1)
        with np show ?thesis by (simp add: eq run_first_eq h1)
      next
        case p: True
        show ?thesis
        proof (cases "skip_none ?q ?i")
          case (Some x)
          obtain j hook where x: "x = (j, hook)" by (cases x)
          have r: "hook_next h n v = invokes h1 n nav' j hook"
            using Some x p by (simp add: eq run_first_eq h1)
          have "calls_next n nav v h (hook_next h n v)"
            unfolding calls_next_def
            using False continue p Some x
            by (auto simp: r invokes_fields h1 nf)
          then show ?thesis by blast
        next
          case None
          define nav2 where "nav2 = nav'\<lparr>nav_queue := second_queue (router h1) (nav_activated nav'),
                               nav_second := True, nav_postEnterCbs := []\<rparr>"
          have s2: "nav_second nav2" by (simp add: nav2_def)
          show ?thesis
          proof (cases "skip_none (second_queue (router h1) (nav_activated nav')) 0")
            case n2: None
            have "hook_next h n v = commits h1 n nav2"
              using None n2 p by (simp add: eq run_first_eq h1 Let_def nav2_def)
            with quiet_commits [OF h1(1,2), of nav2] show ?thesis by simp
          next
            case (Some x)
            obtain j hook where x: "x = (j, hook)" by (cases x)
            have "hook_next h n v = invokes h1 n nav2 j hook"
              using None Some x p by (simp add: eq run_first_eq h1 Let_def nav2_def)
            with enters_second_invokes [OF h1(1) s2, of n j hook] None show ?thesis by simp
          qed
        qed
      qed
    qed
  qed
qed

lemma hook_throws_outcome:
  assumes w: "waiting h n = Some nav"
  shows "quiet n h (hook_throws h n e)"
proof -
  have "quiet n h (abort (h\<lparr>waiting := (waiting h)(n := None)\<rparr>) n (nav_onAbort nav) e)"
    by (rule quiet_abort [where ?es1.0 = "[]"]) simp_all
  with w show ?thesis by (simp add: hook_throws_def)
qed

lemma since_extend:
  assumes "effects h = effects h0 @ es" and "effects h' = effects h @ es'"
  shows "since h0 h' = since h0 h @ es'"
  using assms by (simp add: since_def)

lemma queue_inv_no_call:
  assumes inv: "queue_inv n Q h0 h" and f: "fresh h \<le> fresh h'"
    and e: "effects h' = effects h @ es'" and no: "\<forall>b i hk. Invoke n b i hk \<notin> set es'"
    and w: "waiting h' n = waiting h n \<or> waiting h' n = None"
  shows "queue_inv n Q h0 h'"
    and "first_calls n (since h0 h') = first_calls n (since h0 h)"
proof -
  from inv obtain es where es: "effects h = effects h0 @ es" unfolding queue_inv_def by blast
  note s = since_extend [OF es e]
  from no have "first_calls n es' = []" by (simp add: first_calls_none)
  then show c: "first_calls n (since h0 h') = first_calls n (since h0 h)"
    by (simp add: s first_calls_append)
  have t: "Invoke n True i hook \<in> set (since h0 h') \<longleftrightarrow> Invoke n True i hook \<in> set (since h0 h)"
    for i hook
    using no by (auto simp: s)
  from inv have i1: "n < fresh h"
    and i3: "\<exists>k. 0 < k \<and> k \<le> length Q \<and> first_calls n (since h0 h) = guards_of (take k Q)"
    and i4: "\<And>nav. waiting h n = Some nav \<Longrightarrow>
          (if nav_second nav then first_calls n (since h0 h) = guards_of Q
           else nav_queue nav = Q \<and> nav_index nav < length Q \<and> Q ! nav_index nav \<noteq> None
                \<and> first_calls n (since h0 h) = guards_of (take (Suc (nav_index nav)) Q)
                \<and> (\<forall>i hook. Invoke n True i hook \<notin> set (since h0 h)))"
    and i5: "(\<exists>i hook. Invoke n True i hook \<in> set (since h0 h))
          \<longrightarrow> first_calls n (since h0 h) = guards_of Q"
    unfolding queue_inv_def by blast+
  show "queue_inv n Q h0 h'"
    unfolding queue_inv_def c t
  proof (intro conjI allI impI)
    show "n < fresh h'" using i1 f by simp
    show "\<exists>es. effects h' = effects h0 @ es" using es e by simp
    show "\<exists>k. 0 < k \<and> k \<le> length Q \<and> first_calls n (since h0 h) = guards_of (take k Q)"
      by (rule i3)
  next
    fix nav assume "waiting h' n = Some nav"
    with w have "waiting h n = Some nav" by auto
    then show "if nav_second nav then first_calls n (since h0 h) = guards_of Q
           else nav_queue nav = Q \<and> nav_index nav < length Q \<and> Q ! nav_index nav \<noteq> None
                \<and> first_calls n (since h0 h) = guards_of (take (Suc (nav_index nav)) Q)
                \<and> (\<forall>i hook. Invoke n True i hook \<notin> set (since h0 h))"
      by (rule i4)
  next
    assume "\<exists>i hook. Invoke n True i hook \<in> set (since h0 h)"
    with i5 show "first_calls n (since h0 h) = guards_of Q" by blast
  qed
qed

lemma queue_inv_enters_second:
  assumes inv: "queue_inv n Q h0 h" and f: "fresh h \<le> fresh h'"
    and w: "waiting h n = Some nav"
    and c: "nav_second nav
            \<or> skip_none (drop (Suc (nav_index nav)) (nav_queue nav)) (Suc (nav_index nav)) = None"
    and s: "enters_second n h h'"
  shows "queue_inv n Q h0 h'"
    and "first_calls n (since h0 h') = first_calls n (since h0 h)"
proof -
  from inv obtain es where es: "effects h = effects h0 @ es" unfolding queue_inv_def by blast
  from s obtain j hook nav' where e: "effects h' = effects h @ [Invoke n True j hook]"
    and w': "waiting h' n = Some nav'" "nav_second nav'"
    unfolding enters_second_def by blast
  note sn = since_extend [OF es e]
  show k: "first_calls n (since h0 h') = first_calls n (since h0 h)"
    by (simp add: sn first_calls_append first_calls_single)
  have all: "first_calls n (since h0 h) = guards_of Q"
  proof (cases "nav_second nav")
    case True
    with inv w show ?thesis unfolding queue_inv_def by auto
  next
    case False
    with inv w have q: "nav_queue nav = Q" "nav_index nav < length Q"
      "first_calls n (since h0 h) = guards_of (take (Suc (nav_index nav)) Q)"
      unfolding queue_inv_def by auto
    from False c q(1) have "skip_none (drop (Suc (nav_index nav)) Q) (Suc (nav_index nav)) = None"
      by simp
    then have "guards_of (drop (Suc (nav_index nav)) Q) = []" by (rule skip_none_no_guards)
    then have "guards_of Q = guards_of (take (Suc (nav_index nav)) Q)"
      using guards_of_append [of "take (Suc (nav_index nav)) Q" "drop (Suc (nav_index nav)) Q"]
      by simp
    with q(3) show ?thesis by simp
  qed
  have "\<exists>es. effects h' = effects h0 @ es" using es e by simp
  moreover have "n < fresh h'" using inv f unfolding queue_inv_def by simp
  moreover have "\<exists>k. 0 < k \<and> k \<le> length Q \<and> first_calls n (since h0 h') = guards_of (take k Q)"
    using inv unfolding queue_inv_def k by blast
  ultimately show "queue_inv n Q h0 h'"
    using w' all unfolding queue_inv_def k by auto
qed

lemma queue_inv_calls_next:
  assumes inv: "queue_inv n Q h0 h" and f: "fresh h \<le> fresh h'"
    and w: "waiting h n = Some nav"
    and c: "calls_next n nav v h h'"
  shows "queue_inv n Q h0 h'"
    and "\<exists>hook. first_calls n (since h0 h') = first_calls n (since h0 h) @ [hook]"
proof -
  from inv obtain es where es: "effects h = effects h0 @ es" unfolding queue_inv_def by blast
  from c obtain j hook nav' where ns: "\<not> nav_second nav"
    and sk: "skip_none (drop (Suc (nav_index nav)) (nav_queue nav)) (Suc (nav_index nav))
               = Some (j, hook)"
    and e: "effects h' = effects h @ [Invoke n False j hook]"
    and w': "waiting h' n = Some nav'" "nav_queue nav' = nav_queue nav" "nav_index nav' = j"
      "\<not> nav_second nav'"
    unfolding calls_next_def by blast
  from inv w ns have q: "nav_queue nav = Q" "nav_index nav < length Q"
    "first_calls n (since h0 h) = guards_of (take (Suc (nav_index nav)) Q)"
    "\<forall>i hook. Invoke n True i hook \<notin> set (since h0 h)"
    unfolding queue_inv_def by auto
  let ?i = "nav_index nav"
  from skip_none_guards [OF sk [unfolded q(1)]] have g: "Suc ?i \<le> j"
    "j - Suc ?i < length (drop (Suc ?i) Q)" "drop (Suc ?i) Q ! (j - Suc ?i) = Some hook"
    "guards_of (take (Suc (j - Suc ?i)) (drop (Suc ?i) Q)) = [hook]" by auto
  from g(1,2) have j: "j < length Q" by simp
  from g(1,3) j have qj: "Q ! j = Some hook" by simp
  from g(1) have "Suc j = Suc ?i + Suc (j - Suc ?i)" by simp
  then have "take (Suc j) Q = take (Suc ?i) Q @ take (Suc (j - Suc ?i)) (drop (Suc ?i) Q)"
    by (simp only: take_add)
  then have t: "guards_of (take (Suc j) Q) = guards_of (take (Suc ?i) Q) @ [hook]"
    by (simp only: guards_of_append g(4))
  note sn = since_extend [OF es e]
  have k: "first_calls n (since h0 h') = first_calls n (since h0 h) @ [hook]"
    by (simp add: sn first_calls_append first_calls_single)
  then show "\<exists>hook. first_calls n (since h0 h') = first_calls n (since h0 h) @ [hook]" ..
  have k': "first_calls n (since h0 h') = guards_of (take (Suc j) Q)"
    by (simp only: k q(3) t)
  have no: "\<forall>i hook. Invoke n True i hook \<notin> set (since h0 h')"
    using q(4) by (simp add: sn)
  have "\<exists>es. effects h' = effects h0 @ es" using es e by simp
  moreover have "n < fresh h'" using inv f unfolding queue_inv_def by simp
  moreover have "\<exists>k. 0 < k \<and> k \<le> length Q \<and> first_calls n (since h0 h') = guards_of (take k Q)"
    using k' j by (intro exI [of _ "Suc j"]) simp
  ultimately show "queue_inv n Q h0 h'"
    using w' q(1) j qj k' no unfolding queue_inv_def by auto
qed

lemma queue_inv_step:
  assumes inv: "queue_inv n Q h0 h"
  shows "queue_inv n Q h0 (step h ev)
         \<and> (first_calls n (since h0 (step h ev)) = first_calls n (since h0 h)
            \<or> (\<exists>nav v hook. ev = Next n v \<and> waiting h n = Some nav \<and> \<not> nav_second nav
                  \<and> v \<noteq> JFalse \<and> \<not> isError v \<and> \<not> is_redirect v \<and> pending h = Some n
                  \<and> first_calls n (since h0 (step h ev)) = first_calls n (since h0 h) @ [hook]))"
proof -
  from inv have n: "n < fresh h" unfolding queue_inv_def by simp
  note f = step_grows(1) [of h ev]
  have same: "queue_inv n Q h0 h \<and> first_calls n (since h0 h) = first_calls n (since h0 h)"
    using inv by simp
  have q: "quiet n h h' \<Longrightarrow> fresh h \<le> fresh h' \<Longrightarrow>
             queue_inv n Q h0 h' \<and> first_calls n (since h0 h') = first_calls n (since h0 h)" for h'
    unfolding quiet_def using queue_inv_no_call [OF inv, of h'] by blast
  show ?thesis
  proof (cases "actor ev = Some n")
    case False
    from frame_step [of ev h] obtain es where fr:
      "effects (step h ev) = effects h @ es"
      "\<forall>e\<in>set es. \<forall>k b i hk. e = Invoke k b i hk
           \<longrightarrow> actor ev = Some k \<or> created h (step h ev) k"
      "\<forall>k. \<not> actor ev = Some k \<longrightarrow> \<not> created h (step h ev) k \<longrightarrow>
            waiting (step h ev) k = waiting h k
            \<and> (pending (step h ev) = Some k \<longrightarrow> pending h = Some k)"
      by (rule frameE)
    have nc: "\<not> created h (step h ev) n" using n by (simp add: created_def)
    from fr(2) False nc have no: "\<forall>b i hk. Invoke n b i hk \<notin> set es" by blast
    from fr(3) False nc have w: "waiting (step h ev) n = waiting h n" by blast
    from queue_inv_no_call [OF inv f fr(1) no] w show ?thesis by simp
  next
    case True
    show ?thesis
    proof (cases "waiting h n")
      case None
      with True have "step h ev = h" by (simp add: idle_step)
      with same show ?thesis by simp
    next
      case (Some nav)
      from True consider (answers) v where "ev = Next n v" | (throws) e where "ev = Throws n e"
        by (cases ev) (auto simp: actor_def)
      then show ?thesis
      proof cases
        case (answers v)
        then have s: "step h ev = hook_next h n v" by (simp add: step_def)
        have "quiet n h (hook_next h n v)
          \<or> ((nav_second nav
               \<or> skip_none (drop (Suc (nav_index nav)) (nav_queue nav)) (Suc (nav_index nav)) = None)
              \<and> enters_second n h (hook_next h n v))
          \<or> calls_next n nav v h (hook_next h n v)"
          by (rule hook_next_outcome [OF n Some])
        then show ?thesis
        proof (rule disjE)
          assume a: "quiet n h (hook_next h n v)"
          from q [OF a] f show ?thesis by (simp add: s)
        next
          assume "((nav_second nav
               \<or> skip_none (drop (Suc (nav_index nav)) (nav_queue nav)) (Suc (nav_index nav)) = None)
              \<and> enters_second n h (hook_next h n v))
            \<or> calls_next n nav v h (hook_next h n v)"
          then show ?thesis
          proof (rule disjE)
            assume "(nav_second nav
               \<or> skip_none (drop (Suc (nav_index nav)) (nav_queue nav)) (Suc (nav_index nav)) = None)
              \<and> enters_second n h (hook_next h n v)"
            then have b: "nav_second nav
                 \<or> skip_none (drop (Suc (nav_index nav)) (nav_queue nav)) (Suc (nav_index nav)) = None"
                "enters_second n h (hook_next h n v)" by simp_all
            have "fresh h \<le> fresh (hook_next h n v)" using f by (simp add: s)
            from queue_inv_enters_second [OF inv this Some b] show ?thesis by (simp add: s)
          next
            assume c: "calls_next n nav v h (hook_next h n v)"
            have fh: "fresh h \<le> fresh (hook_next h n v)" using f by (simp add: s)
            from queue_inv_calls_next [OF inv fh Some c]
            have "queue_inv n Q h0 (step h ev)"
              and "\<exists>hook. first_calls n (since h0 (step h ev)) = first_calls n (since h0 h) @ [hook]"
              by (simp_all add: s)
            moreover from c have "\<not> nav_second nav" "v \<noteq> JFalse" "\<not> isError v" "\<not> is_redirect v"
              "pending h = Some n" unfolding calls_next_def by blast+
            ultimately show ?thesis using answers Some by blast
          qed
        qed
      next
        case (throws e)
        then have s: "step h ev = hook_throws h n e" by (simp add: step_def)
        from q [OF hook_throws_outcome [OF Some, of e]] f show ?thesis by (simp add: s)
      qed
    qed
  qed
qed

lemma queue_inv_run: "queue_inv n Q h0 h \<Longrightarrow> queue_inv n Q h0 (run h evs)"
  by (induction evs rule: rev_induct) (simp_all add: run_Nil run_snoc queue_inv_step)

lemma queue_inv_start:
  assumes m: "router_match (router h0) location (snd (current h0)) = Inr route"
    and d: "\<not> duplicate h0 route"
  shows "queue_inv (fresh h0) (first_queue (router h0) (snd (current h0)) route) h0
           (step h0 (Navigate location oc onAbort))"
proof -
  let ?n = "fresh h0" and ?Q = "first_queue (router h0) (snd (current h0)) route"
  let ?h = "step h0 (Navigate location oc onAbort)"
  from transitionTo_started [OF m d, of oc onAbort] obtain j hook where
    sk: "skip_none ?Q 0 = Some (j, hook)"
    and t: "?h = invokes (h0\<lparr>fresh := Suc (fresh h0), pending := Some (fresh h0)\<rparr>) (fresh h0)
                (start_nav h0 route oc onAbort) j hook"
    by (auto simp: step_def)
  have e: "effects ?h = effects h0 @ [Invoke ?n False j hook]"
    and w: "waiting ?h ?n = Some ((start_nav h0 route oc onAbort)\<lparr>nav_index := j\<rparr>)"
    and f: "fresh ?h = Suc ?n"
    by (simp_all add: t invokes_fields start_nav_def)
  from skip_none_guards [OF sk] have g: "j < length ?Q" "?Q ! j = Some hook"
    "guards_of (take (Suc j) ?Q) = [hook]" by auto
  have s: "since h0 ?h = [Invoke ?n False j hook]" by (rule since_append [OF e])
  have c: "first_calls ?n (since h0 ?h) = guards_of (take (Suc j) ?Q)"
    by (simp add: s first_calls_single g(3))
  have "\<exists>k. 0 < k \<and> k \<le> length ?Q \<and> first_calls ?n (since h0 ?h) = guards_of (take k ?Q)"
    using c g(1) by (intro exI [of _ "Suc j"]) simp
  moreover have "\<exists>es. effects ?h = effects h0 @ es" using e by simp
  moreover have "\<forall>i hook. Invoke ?n True i hook \<notin> set (since h0 ?h)" by (simp add: s)
  ultimately show ?thesis
    unfolding queue_inv_def using f w g(1,2) c by (auto simp: start_nav_def)
qed

text \<open>
  C7. A call of \<^verbatim>\<open>transitionTo\<close> whose route is found and is no duplicate builds the first
  queue from the result of \<^verbatim>\<open>resolveQueue\<close> in five parts, in this order: the leave guards
  of the deactivated records, from the last record to the first and in each record from
  the last view to the first; the global before hooks as they stand in the list; the update
  hooks of the updated records, in order; the \<^verbatim>\<open>beforeEnter\<close> of each activated record, in
  order; and the step that resolves the async components of the activated records. In
  every state of every continuation of the run, the guards of that queue called so far are
  the guards of the queue up to some index, in the order of the queue; while the
  navigation waits in a guard of the first queue they are those up to the index where it
  waits, and no guard of the second queue has been called; once a guard of the second
  queue has been called, all guards of the first queue were. A further guard of the first
  queue is called only by the step in which the guard where the navigation waits proceeds
  while the navigation is the pending one, and that step calls one guard.
\<close>

theorem first_queue_order:
  assumes "router_match (router h0) location (snd (current h0)) = Inr route"
    and "\<not> duplicate h0 route"
    and "resolveQueue (route_matched (snd (current h0))) (route_matched route)
           = (updated, activated, deactivated)"
    and "queue = first_queue (router h0) (snd (current h0)) route"
    and "h = run h0 (Navigate location oc onAbort # evs)"
  shows "queue =
           concat (map (\<lambda>m. flatten (rev (record_guards BeforeRouteLeave bindGuard m)))
                       (rev deactivated))
           @ map (map_option PlainGuard) (beforeHooks (router h0))
           @ concat (map (\<lambda>m. flatten (record_guards BeforeRouteUpdate bindGuard m)) updated)
           @ map (\<lambda>m. map_option PlainGuard (rec_beforeEnter m)) activated
           @ [Some (ResolveAsyncComponents activated)]
         \<and> (\<exists>k. 0 < k \<and> k \<le> length queue
                \<and> first_calls (fresh h0) (since h0 h) = guards_of (take k queue))
         \<and> (\<forall>nav. waiting h (fresh h0) = Some nav \<longrightarrow> \<not> nav_second nav \<longrightarrow>
               nav_index nav < length queue \<and> queue ! nav_index nav \<noteq> None
               \<and> first_calls (fresh h0) (since h0 h) = guards_of (take (Suc (nav_index nav)) queue)
               \<and> (\<forall>i hook. Invoke (fresh h0) True i hook \<notin> set (since h0 h)))
         \<and> ((\<exists>i hook. Invoke (fresh h0) True i hook \<in> set (since h0 h))
               \<longrightarrow> first_calls (fresh h0) (since h0 h) = guards_of queue)
         \<and> (\<forall>ev. first_calls (fresh h0) (since h0 (step h ev)) = first_calls (fresh h0) (since h0 h)
                 \<or> (\<exists>nav v hook. ev = Next (fresh h0) v \<and> waiting h (fresh h0) = Some nav
                       \<and> \<not> nav_second nav \<and> v \<noteq> JFalse \<and> \<not> isError v \<and> \<not> is_redirect v
                       \<and> pending h = Some (fresh h0)
                       \<and> first_calls (fresh h0) (since h0 (step h ev))
                           = first_calls (fresh h0) (since h0 h) @ [hook]))"
proof -
  have 1: "queue =
           concat (map (\<lambda>m. flatten (rev (record_guards BeforeRouteLeave bindGuard m)))
                       (rev deactivated))
           @ map (map_option PlainGuard) (beforeHooks (router h0))
           @ concat (map (\<lambda>m. flatten (record_guards BeforeRouteUpdate bindGuard m)) updated)
           @ map (\<lambda>m. map_option PlainGuard (rec_beforeEnter m)) activated
           @ [Some (ResolveAsyncComponents activated)]"
    by (simp add: assms(4) first_queue_def assms(3) extractLeaveGuards_eq extractUpdateHooks_eq)
  have "queue_inv (fresh h0) queue h0 (step h0 (Navigate location oc onAbort))"
    unfolding assms(4) by (rule queue_inv_start [OF assms(1,2)])
  then have inv: "queue_inv (fresh h0) queue h0 h"
    unfolding assms(5) run_Cons by (rule queue_inv_run)
  from inv have 2: "\<exists>k. 0 < k \<and> k \<le> length queue
                \<and> first_calls (fresh h0) (since h0 h) = guards_of (take k queue)"
    unfolding queue_inv_def by blast
  from inv have 3: "\<forall>nav. waiting h (fresh h0) = Some nav \<longrightarrow> \<not> nav_second nav \<longrightarrow>
               nav_index nav < length queue \<and> queue ! nav_index nav \<noteq> None
               \<and> first_calls (fresh h0) (since h0 h) = guards_of (take (Suc (nav_index nav)) queue)
               \<and> (\<forall>i hook. Invoke (fresh h0) True i hook \<notin> set (since h0 h))"
    unfolding queue_inv_def by auto
  from inv have 4: "(\<exists>i hook. Invoke (fresh h0) True i hook \<in> set (since h0 h))
               \<longrightarrow> first_calls (fresh h0) (since h0 h) = guards_of queue"
    unfolding queue_inv_def by blast
  have 5: "first_calls (fresh h0) (since h0 (step h ev)) = first_calls (fresh h0) (since h0 h)
                 \<or> (\<exists>nav v hook. ev = Next (fresh h0) v \<and> waiting h (fresh h0) = Some nav
                       \<and> \<not> nav_second nav \<and> v \<noteq> JFalse \<and> \<not> isError v \<and> \<not> is_redirect v
                       \<and> pending h = Some (fresh h0)
                       \<and> first_calls (fresh h0) (since h0 (step h ev))
                           = first_calls (fresh h0) (since h0 h) @ [hook])" for ev
    using queue_inv_step [OF inv, of ev] by (rule conjunct2)
  from 1 2 3 4 5 show ?thesis by blast
qed

section \<open>An example of the first queue\<close>

lemma nested_differ: "ex_old_outer \<noteq> ex_new"
  by (simp add: ex_old_outer_def ex_new_def)

lemma nested_resolveQueue:
  "resolveQueue [ex_layout, ex_old_outer, ex_old_inner] [ex_layout, ex_new]
     = ([ex_layout], [ex_new], [ex_old_outer, ex_old_inner])"
  by (simp add: resolveQueue_def nested_differ)

lemma nested_guards:
  "record_guards BeforeRouteLeave bindGuard ex_old_outer
     = [ESingle (Some (BoundGuard 31 101)),
        EArray [Some (BoundGuard 32 102), Some (BoundGuard 33 102)]]"
  "record_guards BeforeRouteLeave bindGuard ex_old_inner = [ESingle (Some (BoundGuard 34 103))]"
  "record_guards BeforeRouteUpdate bindGuard ex_layout = [ESingle (Some (BoundGuard 20 100))]"
  "rec_beforeEnter ex_new = Some 40"
  by (simp_all add: record_guards_def extractGuard_def bindGuard_def ex_old_outer_def
        ex_old_inner_def ex_layout_def ex_new_def)

lemma nested_fields:
  "router_match (router ex_nested) raw cur = Inr (ex_nested_route ''/app/new'' [ex_layout, ex_new])"
  "snd (current ex_nested) = ex_nested_route ''/app/old/deep'' [ex_layout, ex_old_outer, ex_old_inner]"
  "route_matched (ex_nested_route path matched) = matched"
  "beforeHooks (router ex_nested) = [Some 7]"
  "fresh ex_nested = 2"
  by (simp_all add: ex_nested_def ex_nested_route_def)

lemma nested_queue:
  "first_queue (router ex_nested) (snd (current ex_nested))
       (ex_nested_route ''/app/new'' [ex_layout, ex_new])
     = [Some (BoundGuard 34 103), Some (BoundGuard 32 102), Some (BoundGuard 33 102),
        Some (BoundGuard 31 101), Some (PlainGuard 7), Some (BoundGuard 20 100),
        Some (PlainGuard 40), Some (ResolveAsyncComponents [ex_new])]"
  by (simp add: first_queue_def nested_fields nested_resolveQueue extractLeaveGuards_eq
        extractUpdateHooks_eq nested_guards flatten_def)

lemmas nested_simps = run_def step_def transitionTo_def confirmTransition_def
  hook_next_def iterator_def emit_def abort_def transitionTo_onAbort_def
  transitionTo_onComplete_def updateRoute_def call_onComplete_def second_queue_def
  extractEnterGuards_def extractGuards_def flatMapComponents_def flatten_def extractGuard_def
  isSameRoute_def is_redirect_def isError_def isNavigationDuplicated_def js_truthy_def
  note_postEnterCb_def Let_def since_def first_calls_def guards_of_def
  nested_fields nested_resolveQueue

lemma nested_state:
  "pending ex_nested = None" "effects ex_nested = []" "waiting ex_nested = Map.empty"
  "resolveHooks (router ex_nested) = [Some 8]" "afterHooks (router ex_nested) = []"
  "app (router ex_nested) = True" "cb ex_nested = None" "ready ex_nested = True"
  "route_path (ex_nested_route path matched) = path"
  "rec_components ex_new = [(''default'', Some \<lparr>beforeRouteLeave = OneGuard 51,
      beforeRouteUpdate = NoGuard, beforeRouteEnter = OneGuard 50\<rparr>)]"
  "rec_instances ex_new = []"
  by (simp_all add: ex_nested_def ex_nested_route_def ex_new_def)

lemma nested_run:
  "map_option nav_index (waiting (run ex_nested [Navigate (RawString ''/app/new'') NoCallback None,
        Next 2 Undefined, Next 2 Undefined, Next 2 Undefined, Next 2 Undefined]) 2) = Some 4"
  "map_option nav_second (waiting (run ex_nested [Navigate (RawString ''/app/new'') NoCallback None,
        Next 2 Undefined, Next 2 Undefined, Next 2 Undefined, Next 2 Undefined]) 2) = Some False"
  "since ex_nested (run ex_nested [Navigate (RawString ''/app/new'') NoCallback None,
        Next 2 Undefined, Next 2 Undefined, Next 2 Undefined, Next 2 Undefined])
     = [Invoke 2 False 0 (BoundGuard 34 103), Invoke 2 False 1 (BoundGuard 32 102),
        Invoke 2 False 2 (BoundGuard 33 102), Invoke 2 False 3 (BoundGuard 31 101),
        Invoke 2 False 4 (PlainGuard 7)]"
  "since ex_nested (run ex_nested [Navigate (RawString ''/app/new'') NoCallback None,
        Next 2 Undefined, Next 2 Undefined, Next 2 Undefined, Next 2 Undefined,
        Next 2 Undefined, Next 2 Undefined, Next 2 Undefined, Next 2 Undefined])
     = [Invoke 2 False 0 (BoundGuard 34 103), Invoke 2 False 1 (BoundGuard 32 102),
        Invoke 2 False 2 (BoundGuard 33 102), Invoke 2 False 3 (BoundGuard 31 101),
        Invoke 2 False 4 (PlainGuard 7), Invoke 2 False 5 (BoundGuard 20 100),
        Invoke 2 False 6 (PlainGuard 40), Invoke 2 False 7 (ResolveAsyncComponents [ex_new]),
        Invoke 2 True 0 (RouteEnterGuard 50 ex_new ''default'')]"
  by (simp_all add: nested_simps nested_state
        nested_queue [unfolded nested_fields])

theorem first_queue_order_witness:
  "router_match (router ex_nested) (RawString ''/app/new'') (snd (current ex_nested))
     = Inr (ex_nested_route ''/app/new'' [ex_layout, ex_new])
   \<and> \<not> duplicate ex_nested (ex_nested_route ''/app/new'' [ex_layout, ex_new])
   \<and> resolveQueue (route_matched (snd (current ex_nested)))
        (route_matched (ex_nested_route ''/app/new'' [ex_layout, ex_new]))
     = ([ex_layout], [ex_new], [ex_old_outer, ex_old_inner])
   \<and> first_queue (router ex_nested) (snd (current ex_nested))
        (ex_nested_route ''/app/new'' [ex_layout, ex_new])
     = [Some (BoundGuard 34 103), Some (BoundGuard 32 102), Some (BoundGuard 33 102),
        Some (BoundGuard 31 101), Some (PlainGuard 7), Some (BoundGuard 20 100),
        Some (PlainGuard 40), Some (ResolveAsyncComponents [ex_new])]
   \<and> map_option nav_index (waiting (run ex_nested [Navigate (RawString ''/app/new'') NoCallback None,
        Next 2 Undefined, Next 2 Undefined, Next 2 Undefined, Next 2 Undefined]) 2) = Some 4
   \<and> first_calls 2 (since ex_nested (run ex_nested [Navigate (RawString ''/app/new'') NoCallback None,
        Next 2 Undefined, Next 2 Undefined, Next 2 Undefined, Next 2 Undefined]))
     = [BoundGuard 34 103, BoundGuard 32 102, BoundGuard 33 102, BoundGuard 31 101, PlainGuard 7]
   \<and> Invoke 2 True 0 (RouteEnterGuard 50 ex_new ''default'')
       \<in> set (since ex_nested (run ex_nested [Navigate (RawString ''/app/new'') NoCallback None,
        Next 2 Undefined, Next 2 Undefined, Next 2 Undefined, Next 2 Undefined,
        Next 2 Undefined, Next 2 Undefined, Next 2 Undefined, Next 2 Undefined]))
   \<and> first_calls 2 (since ex_nested (run ex_nested [Navigate (RawString ''/app/new'') NoCallback None,
        Next 2 Undefined, Next 2 Undefined, Next 2 Undefined, Next 2 Undefined,
        Next 2 Undefined, Next 2 Undefined, Next 2 Undefined, Next 2 Undefined]))
     = [BoundGuard 34 103, BoundGuard 32 102, BoundGuard 33 102, BoundGuard 31 101, PlainGuard 7,
        BoundGuard 20 100, PlainGuard 40, ResolveAsyncComponents [ex_new]]"
proof -
  let ?to = "ex_nested_route ''/app/new'' [ex_layout, ex_new]"
  let ?go = "Navigate (RawString ''/app/new'') NoCallback None"
  let ?four = "[Next 2 Undefined, Next 2 Undefined, Next 2 Undefined, Next 2 Undefined]"
  let ?Q = "first_queue (router ex_nested) (snd (current ex_nested)) ?to"
  have m: "router_match (router ex_nested) (RawString ''/app/new'') (snd (current ex_nested))
             = Inr ?to"
    by (simp add: nested_fields)
  have d: "\<not> duplicate ex_nested ?to"
    by (simp add: duplicate_def nested_fields)
  have r: "resolveQueue (route_matched (snd (current ex_nested))) (route_matched ?to)
             = ([ex_layout], [ex_new], [ex_old_outer, ex_old_inner])"
    by (simp add: nested_fields nested_resolveQueue)
  note T = first_queue_order [OF m d r refl refl, of NoCallback None ?four]
  note U = first_queue_order [OF m d r refl refl, of NoCallback None "?four @ ?four"]
  from T have "?Q =
           concat (map (\<lambda>m. flatten (rev (record_guards BeforeRouteLeave bindGuard m)))
                       (rev [ex_old_outer, ex_old_inner]))
           @ map (map_option PlainGuard) (beforeHooks (router ex_nested))
           @ concat (map (\<lambda>m. flatten (record_guards BeforeRouteUpdate bindGuard m)) [ex_layout])
           @ map (\<lambda>m. map_option PlainGuard (rec_beforeEnter m)) [ex_new]
           @ [Some (ResolveAsyncComponents [ex_new])]"
    by (rule conjunct1)
  then have q: "?Q = [Some (BoundGuard 34 103), Some (BoundGuard 32 102), Some (BoundGuard 33 102),
        Some (BoundGuard 31 101), Some (PlainGuard 7), Some (BoundGuard 20 100),
        Some (PlainGuard 40), Some (ResolveAsyncComponents [ex_new])]"
    by (simp add: nested_guards nested_fields flatten_def)
  from nested_run(1,2) obtain nav where
    w: "waiting (run ex_nested (?go # ?four)) (fresh ex_nested) = Some nav"
    and n: "\<not> nav_second nav" "nav_index nav = 4"
    by (auto simp: nested_fields)
  from T [THEN conjunct2, THEN conjunct2, THEN conjunct1, rule_format, OF w n(1)]
  have "first_calls (fresh ex_nested) (since ex_nested (run ex_nested (?go # ?four)))
          = guards_of (take (Suc (nav_index nav)) ?Q)"
    by simp
  then have c: "first_calls 2 (since ex_nested (run ex_nested (?go # ?four)))
     = [BoundGuard 34 103, BoundGuard 32 102, BoundGuard 33 102, BoundGuard 31 101, PlainGuard 7]"
    unfolding q n(2) nested_fields(5) by (simp add: guards_of_def)
  have i: "Invoke 2 True 0 (RouteEnterGuard 50 ex_new ''default'')
       \<in> set (since ex_nested (run ex_nested (?go # ?four @ ?four)))"
    by (simp add: nested_run(4))
  then have "\<exists>i hook. Invoke (fresh ex_nested) True i hook
       \<in> set (since ex_nested (run ex_nested (?go # ?four @ ?four)))"
    unfolding nested_fields by blast
  from U [THEN conjunct2, THEN conjunct2, THEN conjunct2, THEN conjunct1, rule_format, OF this]
  have a: "first_calls 2 (since ex_nested (run ex_nested (?go # ?four @ ?four)))
     = [BoundGuard 34 103, BoundGuard 32 102, BoundGuard 33 102, BoundGuard 31 101, PlainGuard 7,
        BoundGuard 20 100, PlainGuard 40, ResolveAsyncComponents [ex_new]]"
    unfolding q nested_fields(5) by (simp add: guards_of_def)
  from m d r q nested_run(1) c i a show ?thesis by simp
qed

end
